theory Spec2Isabelle
  imports Main
begin

section \<open>The AST assembly layer of parserlib (include/ast.hpp)\<close>

text \<open>
  The header declares four classes: \<open>ast_node\<close> (anything that can sit on the node
  stack), \<open>ast_container\<close> (a node with a vector \<open>m_members\<close> of pointers to its
  member fields), \<open>ast_member\<close> (a field that registers itself with the container under
  construction) and \<open>ast_ptr<T>\<close> (the member that owns one heap object of class
  \<open>T\<close>), and the class template \<open>ast<T>\<close> whose \<open>_parse_proc\<close> builds a node
  when a rule matches.

  An \<open>ast_ptr\<close> owns its object exclusively, so the objects reachable from a pointer
  form a tree. A node is modelled by value together with its address, and the heap is the
  set of addresses that are allocated and not yet deleted. A pointer whose object has
  been deleted keeps its value (it dangles): its address is no longer live.
  The member vectors are written through the ambient container under construction, so
  they are kept in a store indexed by the container's address.
\<close>

subsection \<open>Data\<close>

type_synonym addr = nat
type_synonym cls = nat
type_synonym pos = nat

text \<open>A member sub-object is named by the object it is a field of and its field index.\<close>

type_synonym member_ref = "addr \<times> nat"

text \<open>\<open>ast_ptr<T>\<close>: the template argument \<open>T\<close> and the private field \<open>m_ptr\<close>
  (\<open>None\<close> is the null pointer).\<close>

datatype 'n ast_ptr = ast_ptr (elem_type: cls) (m_ptr: "'n option")

text \<open>An object of a node class: its address, its runtime class and its \<open>ast_ptr\<close>
  fields in declaration order.\<close>

datatype ast_node = Node (node_addr: addr) (rtype: cls) (node_fields: "ast_node ast_ptr list")

text \<open>\<open>typedef std::vector<ast_node *> ast_stack\<close>: the top of the stack is the back of
  the vector, the last element of the list. Only \<open>_parse_proc\<close> pushes, and it pushes
  the result of \<open>new\<close>, so the stack holds no null pointer.\<close>

type_synonym ast_stack = "ast_node list"

text \<open>What stops an operation: \<open>std::logic_error\<close> thrown by \<open>ast_ptr::construct\<close>,
  a failed \<open>assert\<close>, the use of an object after its deletion (undefined
  behaviour in C++, a fault here), and a registered member that is not a field of the
  container that lists it (such a member lies outside the tree the model follows).\<close>

datatype fault = logic_error | assert_failed | dangling | not_a_field

record state =
  live :: "addr set"
  next_addr :: addr
  registry :: "addr list"
  members :: "addr \<Rightarrow> member_ref list"

text \<open>
  The node classes themselves are written by the user of the library. What the
  operations need of them is a parameter: which class derives from which, and the
  element classes of the \<open>ast_ptr\<close> fields a class declares, in declaration order.
\<close>

record class_table =
  derived :: "cls \<Rightarrow> cls \<Rightarrow> bool"
  decl :: "cls \<Rightarrow> cls list"

text \<open>A configuration of \<open>ast_ptr::construct\<close>: the heap, the member and the stack.\<close>

type_synonym ptr_cfg = "state \<times> ast_node ast_ptr \<times> ast_stack"

subsection \<open>Deleting an object\<close>

text \<open>
  \<open>delete m_ptr\<close> runs the destructor of the object and frees it. The destructor of a
  node class destroys the fields in reverse declaration order, and
  \<open>~ast_ptr() { delete m_ptr; }\<close> deletes what each field owns. Deleting the null
  pointer does nothing; deleting an object that is not live (a second \<open>delete\<close>) is
  a fault. The member vector of a deleted container stays in the store under its
  address, which is never handed out again.
\<close>

function delete_node :: "state \<Rightarrow> ast_node \<Rightarrow> fault + state"
  and ast_ptr_dtor :: "state \<Rightarrow> ast_node ast_ptr \<Rightarrow> fault + state"
  and destroy_fields :: "state \<Rightarrow> ast_node ast_ptr list \<Rightarrow> fault + state" where
  "delete_node s (Node a c fs) =
     (if a \<notin> live s then Inl dangling
      else case destroy_fields s fs of
             Inl e \<Rightarrow> Inl e
           | Inr s' \<Rightarrow> Inr (s'\<lparr>live := live s' - {a}\<rparr>))"
| "ast_ptr_dtor s (ast_ptr T None) = Inr s"
| "ast_ptr_dtor s (ast_ptr T (Some n)) = delete_node s n"
| "destroy_fields s [] = Inr s"
| "destroy_fields s (p # ps) =
     (case destroy_fields s ps of
        Inl e \<Rightarrow> Inl e
      | Inr s' \<Rightarrow> ast_ptr_dtor s' p)"
  by pat_completeness auto
termination
  by (relation "measure (\<lambda>x. case x of
          Inl (s, n) \<Rightarrow> size n
        | Inr (Inl (s, p)) \<Rightarrow> size_ast_ptr size p
        | Inr (Inr (s, ps)) \<Rightarrow> size_list (size_ast_ptr size) ps)") auto

text \<open>The addresses of the objects of a tree, the root first.\<close>

function node_addrs :: "ast_node \<Rightarrow> addr list"
  and ptr_addrs :: "ast_node ast_ptr \<Rightarrow> addr list"
  and fields_addrs :: "ast_node ast_ptr list \<Rightarrow> addr list" where
  "node_addrs (Node a c fs) = a # fields_addrs fs"
| "ptr_addrs (ast_ptr T None) = []"
| "ptr_addrs (ast_ptr T (Some n)) = node_addrs n"
| "fields_addrs [] = []"
| "fields_addrs (p # ps) = ptr_addrs p @ fields_addrs ps"
  by pat_completeness auto
termination
  by (relation "measure (\<lambda>x. case x of
          Inl n \<Rightarrow> size n
        | Inr (Inl p) \<Rightarrow> size_ast_ptr size p
        | Inr (Inr ps) \<Rightarrow> size_list (size_ast_ptr size) ps)") auto

text \<open>A pointer is valid in a heap when it is null or owns a tree of live objects, no
  object twice.\<close>

definition valid_ptr :: "state \<Rightarrow> ast_node ast_ptr \<Rightarrow> bool" where
  "valid_ptr s p \<longleftrightarrow> distinct (ptr_addrs p) \<and> set (ptr_addrs p) \<subseteq> live s"

text \<open>The fields of an object are valid when they own trees of live objects that share
  no object.\<close>

definition valid_fields :: "state \<Rightarrow> ast_node ast_ptr list \<Rightarrow> bool" where
  "valid_fields s fs \<longleftrightarrow> distinct (fields_addrs fs) \<and> set (fields_addrs fs) \<subseteq> live s"

text \<open>The nodes that the fields of an object own.\<close>

definition children :: "ast_node \<Rightarrow> ast_node list" where
  "children n = concat (map (\<lambda>p. case m_ptr p of None \<Rightarrow> [] | Some c \<Rightarrow> [c]) (node_fields n))"

subsection \<open>\<open>ast_ptr<T>::construct\<close>\<close>

text \<open>\<open>dynamic_cast<T *>(node)\<close> succeeds when the runtime class of the node is \<open>T\<close>
  or a class derived from \<open>T\<close>.\<close>

definition is_a :: "class_table \<Rightarrow> cls \<Rightarrow> cls \<Rightarrow> bool" where
  "is_a ct D T \<longleftrightarrow> D = T \<or> derived ct D T"

definition dynamic_cast :: "class_table \<Rightarrow> cls \<Rightarrow> ast_node \<Rightarrow> ast_node option" where
  "dynamic_cast ct T node = (if is_a ct (rtype node) T then Some node else None)"

text \<open>
  \<^verbatim>\<open>
  virtual void construct(ast_stack &st) {
      assert(!st.empty());
      ast_node *node = st.back();
      T *obj = dynamic_cast<T *>(node);
      if (!obj) throw std::logic_error("invalid AST node");
      st.pop_back();
      delete m_ptr;
      m_ptr = obj;
  }
  \<close>
  A fault comes with the configuration in which it was raised: the stack belongs to the
  caller, who sees it as the exception left it.
\<close>

definition ast_ptr_construct ::
  "class_table \<Rightarrow> state \<Rightarrow> ast_node ast_ptr \<Rightarrow> ast_stack \<Rightarrow> (fault \<times> ptr_cfg) + ptr_cfg" where
  "ast_ptr_construct ct s this st =
     (if st = [] then Inl (assert_failed, (s, this, st))
      else
        let node = last st in
        case dynamic_cast ct (elem_type this) node of
          None \<Rightarrow> Inl (logic_error, (s, this, st))
        | Some obj \<Rightarrow>
            (let st' = butlast st in
             case ast_ptr_dtor s this of
               Inl e \<Rightarrow> Inl (e, (s, this, st'))
             | Inr s' \<Rightarrow> Inr (s', ast_ptr (elem_type this) (Some obj), st')))"

subsection \<open>Registration of members\<close>

text \<open>
  Modelled from the spec: the body of \<open>ast_member::_init\<close>, which the header only
  declares (``register the AST member to the current container''). The specification:
  a member ``appends itself to the member list of whatever Container is at the top of the
  construction-registry stack'', and a member built while no container is under
  construction is a programming error.
\<close>

definition ast_member_init :: "state \<Rightarrow> member_ref \<Rightarrow> fault + state" where
  "ast_member_init s this =
     (case registry s of
        [] \<Rightarrow> Inl assert_failed
      | c # r \<Rightarrow> Inr (s\<lparr>members := (members s)(c := members s c @ [this])\<rparr>))"

text \<open>\<open>ast_member() { _init(); }\<close> and
  \<open>ast_member(const ast_member &src) { _init(); }\<close>.\<close>

definition ast_member_ctor :: "state \<Rightarrow> member_ref \<Rightarrow> fault + state" where
  "ast_member_ctor s this = ast_member_init s this"

definition ast_member_copy_ctor :: "state \<Rightarrow> member_ref \<Rightarrow> member_ref \<Rightarrow> fault + state" where
  "ast_member_copy_ctor s this src = ast_member_init s this"

text \<open>\<open>ast_member &operator = (const ast_member &src) { return *this; }\<close>\<close>

definition ast_member_assign :: "state \<Rightarrow> member_ref \<Rightarrow> member_ref \<Rightarrow> state \<times> member_ref" where
  "ast_member_assign s this src = (s, this)"

text \<open>
  Modelled from the spec: the constructor \<open>ast_container()\<close>, which the header only
  declares (``sets the container under construction to be this''). The specification:
  the container ``pushes itself onto the construction-registry stack before any field
  is constructed''. Its member vector starts empty. The specification also has the
  container pop itself ``after the last field finishes constructing''. A base class
  constructor returns before the fields of the derived class are built, the class
  declares nothing that runs after them, and the header gives a derived class no access
  to the registry: no operation of the model pops.
\<close>

definition ast_container_ctor :: "state \<Rightarrow> addr \<Rightarrow> state" where
  "ast_container_ctor s this = s\<lparr>registry := this # registry s, members := (members s)(this := [])\<rparr>"

text \<open>Modelled from the spec: the copy constructor of \<open>ast_container\<close>, declared in
  the header with the comment ``Members are not copied''; it pushes the new container as
  the default constructor does and reads nothing of the source.\<close>

definition ast_container_copy_ctor :: "state \<Rightarrow> addr \<Rightarrow> ast_node \<Rightarrow> state" where
  "ast_container_copy_ctor s this src =
     s\<lparr>registry := this # registry s, members := (members s)(this := [])\<rparr>"

text \<open>\<open>ast_container &operator = (const ast_container &src) { return *this; }\<close>\<close>

definition ast_container_assign :: "state \<Rightarrow> ast_node \<Rightarrow> ast_node \<Rightarrow> state \<times> ast_node" where
  "ast_container_assign s this src = (s, this)"

subsection \<open>Allocation, construction and copying of nodes\<close>

text \<open>\<open>operator new\<close>: an address that has never been handed out.\<close>

definition alloc :: "state \<Rightarrow> addr \<times> state" where
  "alloc s = (next_addr s, s\<lparr>live := insert (next_addr s) (live s), next_addr := Suc (next_addr s)\<rparr>)"

text \<open>\<open>ast_ptr(T *obj = 0) : m_ptr(obj) {}\<close>: the base \<open>ast_member()\<close> runs first.\<close>

definition ast_ptr_ctor ::
  "state \<Rightarrow> member_ref \<Rightarrow> cls \<Rightarrow> ast_node option \<Rightarrow> fault + (state \<times> ast_node ast_ptr)" where
  "ast_ptr_ctor s this T obj =
     (case ast_member_ctor s this of
        Inl e \<Rightarrow> Inl e
      | Inr s' \<Rightarrow> Inr (s', ast_ptr T obj))"

text \<open>
  \<open>new T\<close> for a node class \<open>T\<close> with the constructor the compiler generates: the
  base \<open>ast_container()\<close>, then the fields in declaration order, each an
  \<open>ast_ptr<U>\<close> built with its default argument. Nothing of the library runs after
  the last field.
\<close>

fun default_fields ::
  "state \<Rightarrow> addr \<Rightarrow> nat \<Rightarrow> cls list \<Rightarrow> fault + (state \<times> ast_node ast_ptr list)" where
  "default_fields s this i [] = Inr (s, [])"
| "default_fields s this i (U # Us) =
     (case ast_ptr_ctor s (this, i) U None of
        Inl e \<Rightarrow> Inl e
      | Inr (s1, p) \<Rightarrow>
          (case default_fields s1 this (Suc i) Us of
             Inl e \<Rightarrow> Inl e
           | Inr (s2, ps) \<Rightarrow> Inr (s2, p # ps)))"

definition new_default :: "class_table \<Rightarrow> state \<Rightarrow> cls \<Rightarrow> fault + (state \<times> ast_node)" where
  "new_default ct s T =
     (let (a, s1) = alloc s;
          s2 = ast_container_ctor s1 a
      in case default_fields s2 a 0 (decl ct T) of
           Inl e \<Rightarrow> Inl e
         | Inr (s3, fs) \<Rightarrow> Inr (s3, Node a T fs))"

text \<open>
  \<open>new T(*p)\<close> with the copy constructor the compiler generates for \<open>T\<close>: the base
  \<open>ast_container(src)\<close>, then the fields \<open>T\<close> declares, in declaration order, each by
  \<^verbatim>\<open>
  ast_ptr(const ast_ptr<T> &src) : m_ptr(src.m_ptr ? new T(*src.m_ptr) : 0) {}
  \<close>
  whose base is built by \<open>ast_member()\<close>. The new object has class \<open>T\<close>, the static
  type of the pointer, whatever class derived from \<open>T\<close> the source object has, and of
  the source's fields only those that \<open>T\<close> declares are copied. Nothing of the
  library runs after the last field. Reading an object that has been deleted is a
  fault, which comes with the state in which it was met.
\<close>

function new_copy ::
    "class_table \<Rightarrow> state \<Rightarrow> cls \<Rightarrow> ast_node \<Rightarrow> (fault \<times> state) + (state \<times> ast_node)"
  and ast_ptr_copy_ctor ::
    "class_table \<Rightarrow> state \<Rightarrow> member_ref \<Rightarrow> ast_node ast_ptr
       \<Rightarrow> (fault \<times> state) + (state \<times> ast_node ast_ptr)"
  and copy_fields ::
    "class_table \<Rightarrow> state \<Rightarrow> addr \<Rightarrow> nat \<Rightarrow> nat \<Rightarrow> ast_node ast_ptr list
       \<Rightarrow> (fault \<times> state) + (state \<times> ast_node ast_ptr list)" where
  "new_copy ct s T (Node a c fs) =
     (if a \<notin> live s then Inl (dangling, s)
      else
        let (a', s1) = alloc s;
            s2 = ast_container_copy_ctor s1 a' (Node a c fs)
        in case copy_fields ct s2 a' 0 (length (decl ct T)) fs of
             Inl e \<Rightarrow> Inl e
           | Inr (s3, fs') \<Rightarrow> Inr (s3, Node a' T fs'))"
| "ast_ptr_copy_ctor ct s this (ast_ptr T None) =
     (case ast_member_ctor s this of
        Inl e \<Rightarrow> Inl (e, s)
      | Inr s1 \<Rightarrow> Inr (s1, ast_ptr T None))"
| "ast_ptr_copy_ctor ct s this (ast_ptr T (Some n)) =
     (case ast_member_ctor s this of
        Inl e \<Rightarrow> Inl (e, s)
      | Inr s1 \<Rightarrow>
          (case new_copy ct s1 T n of
             Inl e \<Rightarrow> Inl e
           | Inr (s2, n') \<Rightarrow> Inr (s2, ast_ptr T (Some n'))))"
| "copy_fields ct s this i k [] = Inr (s, [])"
| "copy_fields ct s this i k (p # ps) =
     (if k \<le> i then Inr (s, [])
      else case ast_ptr_copy_ctor ct s (this, i) p of
             Inl e \<Rightarrow> Inl e
           | Inr (s1, p') \<Rightarrow>
               (case copy_fields ct s1 this (Suc i) k ps of
                  Inl e \<Rightarrow> Inl e
                | Inr (s2, ps') \<Rightarrow> Inr (s2, p' # ps')))"
  by pat_completeness auto
termination
  by (relation "measure (\<lambda>x. case x of
          Inl (ct, s, T, n) \<Rightarrow> size n
        | Inr (Inl (ct, s, this, p)) \<Rightarrow> size_ast_ptr size p
        | Inr (Inr (ct, s, this, i, k, ps)) \<Rightarrow> size_list (size_ast_ptr size) ps)") auto

text \<open>The state in which an operation ends: the state it returns, or the state in which
  it met its fault.\<close>

definition post :: "(fault \<times> state) + (state \<times> 'a) \<Rightarrow> state" where
  "post r = (case r of Inl (f, s) \<Rightarrow> s | Inr (s, x) \<Rightarrow> s)"

subsection \<open>Assignment to an \<open>ast_ptr<T>\<close>\<close>

text \<open>
  \<^verbatim>\<open>
  ast_ptr<T> &operator = (const T *obj) {
      delete m_ptr;
      m_ptr = obj ? new T(*obj) : 0;
      return *this;
  }
  ast_ptr<T> &operator = (const ast_ptr<T> &src) {
      delete m_ptr;
      m_ptr = src.m_ptr ? new T(*src.m_ptr) : 0;
      return *this;
  }
  \<close>
  A raw pointer is passed by value. The source member of the second operator is passed
  by reference: it is a field of some object, and \<open>src.m_ptr\<close> is read after the
  \<open>delete\<close>, so when that object has been deleted with what the target owned, the
  read is a fault. The value read is the one the member held before the \<open>delete\<close>,
  which changes no pointer; when source and target are the same member it is the pointer
  that has just been deleted. A fault comes with the state in which it was met.
\<close>

definition ast_ptr_assign_raw ::
  "class_table \<Rightarrow> state \<Rightarrow> ast_node ast_ptr \<Rightarrow> ast_node option
     \<Rightarrow> (fault \<times> state) + (state \<times> ast_node ast_ptr)" where
  "ast_ptr_assign_raw ct s this obj =
     (case ast_ptr_dtor s this of
        Inl e \<Rightarrow> Inl (e, s)
      | Inr s1 \<Rightarrow>
          (case obj of
             None \<Rightarrow> Inr (s1, ast_ptr (elem_type this) None)
           | Some n \<Rightarrow>
               (case new_copy ct s1 (elem_type this) n of
                  Inl e \<Rightarrow> Inl e
                | Inr (s2, n') \<Rightarrow> Inr (s2, ast_ptr (elem_type this) (Some n')))))"

definition ast_ptr_assign ::
  "class_table \<Rightarrow> state \<Rightarrow> ast_node ast_ptr \<Rightarrow> member_ref \<Rightarrow> ast_node ast_ptr
     \<Rightarrow> (fault \<times> state) + (state \<times> ast_node ast_ptr)" where
  "ast_ptr_assign ct s this src_ref src =
     (case ast_ptr_dtor s this of
        Inl e \<Rightarrow> Inl (e, s)
      | Inr s1 \<Rightarrow>
          if fst src_ref \<notin> live s1 then Inl (dangling, s1)
          else
            (case m_ptr src of
               None \<Rightarrow> Inr (s1, ast_ptr (elem_type this) None)
             | Some n \<Rightarrow>
                 (case new_copy ct s1 (elem_type this) n of
                    Inl e \<Rightarrow> Inl e
                  | Inr (s2, n') \<Rightarrow> Inr (s2, ast_ptr (elem_type this) (Some n')))))"

subsection \<open>\<open>ast_container::construct\<close>, \<open>ast<T>::_parse_proc\<close> and \<open>parse\<close>\<close>

text \<open>A configuration of \<open>ast_container::construct\<close>: the heap, the fields of the
  container and the stack.\<close>

type_synonym fields_cfg = "state \<times> ast_node ast_ptr list \<times> ast_stack"

text \<open>
  Modelled from the spec: the body of \<open>ast_container::construct\<close>, which the header only
  declares (``Asks all members to construct themselves from the stack. The members are
  asked to construct themselves in reverse order''). The specification: it ``iterates
  its member list in reverse registration order and calls each member's
  \<open>construct(stack)\<close>''. An exception of a member's \<open>construct\<close> ends the iteration.
\<close>

fun construct_members ::
  "class_table \<Rightarrow> addr \<Rightarrow> member_ref list \<Rightarrow> fields_cfg \<Rightarrow> (fault \<times> fields_cfg) + fields_cfg" where
  "construct_members ct this [] cfg = Inr cfg"
| "construct_members ct this ((c, i) # ms) (s, fs, st) =
     (if c \<noteq> this \<or> length fs \<le> i then Inl (not_a_field, (s, fs, st))
      else case ast_ptr_construct ct s (fs ! i) st of
             Inl (e, (s', p', st')) \<Rightarrow> Inl (e, (s', fs[i := p'], st'))
           | Inr (s', p', st') \<Rightarrow> construct_members ct this ms (s', fs[i := p'], st'))"

type_synonym node_cfg = "state \<times> ast_node \<times> ast_stack"

text \<open>Modelled from the spec: \<open>ast_container::construct(b, e, st)\<close> itself, the
  iteration above over the member vector of the container, last registered member
  first. The range \<open>b\<close>, \<open>e\<close> is not used.\<close>

definition ast_container_construct ::
  "class_table \<Rightarrow> pos \<Rightarrow> pos \<Rightarrow> state \<Rightarrow> ast_node \<Rightarrow> ast_stack \<Rightarrow> (fault \<times> node_cfg) + node_cfg" where
  "ast_container_construct ct b e s this st =
     (case construct_members ct (node_addr this) (rev (members s (node_addr this)))
             (s, node_fields this, st) of
        Inl (f, (s', fs', st')) \<Rightarrow> Inl (f, (s', Node (node_addr this) (rtype this) fs', st'))
      | Inr (s', fs', st') \<Rightarrow> Inr (s', Node (node_addr this) (rtype this) fs', st'))"

text \<open>
  \<^verbatim>\<open>
  static void _parse_proc(const pos &b, const pos &e, void *d) {
      ast_stack *st = reinterpret_cast<ast_stack *>(d);
      T *obj = new T;
      obj->construct(b, e, *st);
      st->push_back(obj);
  }
  \<close>
  for a class \<open>T\<close> that inherits \<open>construct\<close> from \<open>ast_container\<close>. When
  \<open>construct\<close> throws, the new object is not pushed.
\<close>

type_synonym stack_cfg = "state \<times> ast_stack"

definition parse_proc ::
  "class_table \<Rightarrow> cls \<Rightarrow> pos \<Rightarrow> pos \<Rightarrow> state \<Rightarrow> ast_stack \<Rightarrow> (fault \<times> stack_cfg) + stack_cfg" where
  "parse_proc ct T b e s st =
     (case new_default ct s T of
        Inl f \<Rightarrow> Inl (f, (s, st))
      | Inr (s1, obj) \<Rightarrow>
          (case ast_container_construct ct b e s1 obj st of
             Inl (f, (s2, obj', st')) \<Rightarrow> Inl (f, (s2, st'))
           | Inr (s2, obj', st') \<Rightarrow> Inr (s2, st' @ [obj'])))"

text \<open>
  Modelled from the spec: the grammar engine of \<open>parser.hpp\<close>, which is not part of
  the sources. The specification: the engine ``matches rules bottom-up (innermost
  sub-rules first)'', and the callback installed on a rule is ``invoked by the grammar
  engine exactly once per successful match of that rule, receiving the matched text range
  and the shared reconstruction stack''. The engine is the parameter \<open>engine\<close> of
  \<open>parse\<close>: from the input, the root rule, the whitespace rule and the error list it
  gives whether the root rule matched, the matches of the rules that have an action
  \<open>ast<T>\<close> (the class \<open>T\<close> and the range), in the order in which their parse
  procedures are called, and the error list afterwards.
\<close>

type_synonym rule_match = "cls \<times> pos \<times> pos"

fun run_parse_procs ::
  "class_table \<Rightarrow> state \<Rightarrow> ast_stack \<Rightarrow> rule_match list \<Rightarrow> (fault \<times> stack_cfg) + stack_cfg" where
  "run_parse_procs ct s st [] = Inr (s, st)"
| "run_parse_procs ct s st ((T, b, e) # ms) =
     (case parse_proc ct T b e s st of
        Inl f \<Rightarrow> Inl f
      | Inr (s', st') \<Rightarrow> run_parse_procs ct s' st' ms)"

text \<open>
  Modelled from the spec: the body of \<open>parse\<close>, which the header only declares
  (``return pointer to ast node created, or null if there was an error''). The
  specification: it ``runs the grammar engine over the input with the action bindings
  installed on the relevant rules; on success returns ownership of the single remaining
  stack node (the parse root); on failure returns an absent result and the sink contains
  the recorded errors''; the stack ``must contain exactly one element at the end'', and
  the check of this is the ``stack-count assertion at root''. The stack starts empty.
\<close>

definition parse ::
  "class_table \<Rightarrow> ('i \<Rightarrow> 'r \<Rightarrow> 'r \<Rightarrow> 'e list \<Rightarrow> bool \<times> rule_match list \<times> 'e list) \<Rightarrow> state
     \<Rightarrow> 'i \<Rightarrow> 'r \<Rightarrow> 'r \<Rightarrow> 'e list \<Rightarrow> fault + (state \<times> ast_node option \<times> 'e list)" where
  "parse ct engine s i g ws el =
     (case engine i g ws el of
        (matched, ms, el') \<Rightarrow>
          if \<not> matched then Inr (s, None, el')
          else
            (case run_parse_procs ct s [] ms of
               Inl (f, cfg) \<Rightarrow> Inl f
             | Inr (s', st) \<Rightarrow>
                 if length st \<noteq> 1 then Inl assert_failed
                 else Inr (s', Some (st ! 0), el')))"

subsection \<open>Properties of heaps and trees\<close>


text \<open>The member vector of every container of a tree lists exactly the container's own
  fields, in declaration order.\<close>

function registered_node :: "state \<Rightarrow> ast_node \<Rightarrow> bool"
  and registered_ptr :: "state \<Rightarrow> ast_node ast_ptr \<Rightarrow> bool"
  and registered_fields :: "state \<Rightarrow> ast_node ast_ptr list \<Rightarrow> bool" where
  "registered_node s (Node a c fs) \<longleftrightarrow>
     members s a = map (Pair a) [0..<length fs] \<and> registered_fields s fs"
| "registered_ptr s (ast_ptr T None) \<longleftrightarrow> True"
| "registered_ptr s (ast_ptr T (Some n)) \<longleftrightarrow> registered_node s n"
| "registered_fields s [] \<longleftrightarrow> True"
| "registered_fields s (p # ps) \<longleftrightarrow> registered_ptr s p \<and> registered_fields s ps"
  by pat_completeness auto
termination
  by (relation "measure (\<lambda>x. case x of
          Inl (s, n) \<Rightarrow> size n
        | Inr (Inl (s, p)) \<Rightarrow> size_ast_ptr size p
        | Inr (Inr (s, ps)) \<Rightarrow> size_list (size_ast_ptr size) ps)") auto

text \<open>
  The shape of a tree: classes and fields without the addresses. \<open>copied_shape ct T n\<close>
  is the shape that the copy constructor of \<open>T\<close> sees of the object \<open>n\<close>: class
  \<open>T\<close> and the fields \<open>T\<close> declares, each seen through the element class of the
  field.
\<close>

datatype shape = Shape cls "(cls \<times> shape option) list"

function shape_of :: "ast_node \<Rightarrow> shape"
  and shape_of_ptr :: "ast_node ast_ptr \<Rightarrow> cls \<times> shape option"
  and shape_of_fields :: "ast_node ast_ptr list \<Rightarrow> (cls \<times> shape option) list" where
  "shape_of (Node a c fs) = Shape c (shape_of_fields fs)"
| "shape_of_ptr (ast_ptr T None) = (T, None)"
| "shape_of_ptr (ast_ptr T (Some n)) = (T, Some (shape_of n))"
| "shape_of_fields [] = []"
| "shape_of_fields (p # ps) = shape_of_ptr p # shape_of_fields ps"
  by pat_completeness auto
termination
  by (relation "measure (\<lambda>x. case x of
          Inl n \<Rightarrow> size n
        | Inr (Inl p) \<Rightarrow> size_ast_ptr size p
        | Inr (Inr ps) \<Rightarrow> size_list (size_ast_ptr size) ps)") auto


text \<open>The state in which the copy constructor of a node class starts on its fields:
  the new object is allocated and is the container under construction, with an empty
  member vector.\<close>

definition copy_start :: "state \<Rightarrow> state" where
  "copy_start s = s\<lparr>live := insert (next_addr s) (live s), next_addr := Suc (next_addr s),
       registry := next_addr s # registry s, members := (members s)(next_addr s := [])\<rparr>"



text \<open>
  The matched rules that have an action form a tree: a match of a rule with the action
  \<open>ast<T>\<close> over the matches below it that no other action has claimed. The parse
  procedures are called for the matches below first, left to right, then for the match
  itself. A tree fits the classes when the matches below a match of \<open>T\<close> are, in
  order, of classes compatible with the fields that \<open>T\<close> declares.
\<close>

datatype ptree = PT (tree_class: cls) pos pos "ptree list"

fun matches_of :: "ptree \<Rightarrow> rule_match list"
  and matches_of_list :: "ptree list \<Rightarrow> rule_match list" where
  "matches_of (PT T b e ts) = matches_of_list ts @ [(T, b, e)]"
| "matches_of_list [] = []"
| "matches_of_list (t # ts) = matches_of t @ matches_of_list ts"

fun fits :: "class_table \<Rightarrow> ptree \<Rightarrow> bool"
  and fits_fields :: "class_table \<Rightarrow> cls list \<Rightarrow> ptree list \<Rightarrow> bool" where
  "fits ct (PT T b e ts) \<longleftrightarrow> fits_fields ct (decl ct T) ts"
| "fits_fields ct [] [] \<longleftrightarrow> True"
| "fits_fields ct (U # Us) (t # ts) \<longleftrightarrow>
     is_a ct (tree_class t) U \<and> fits ct t \<and> fits_fields ct Us ts"
| "fits_fields ct Us ts \<longleftrightarrow> False"

fun tree_shape :: "class_table \<Rightarrow> ptree \<Rightarrow> shape"
  and fields_shape :: "class_table \<Rightarrow> cls list \<Rightarrow> ptree list \<Rightarrow> (cls \<times> shape option) list" where
  "tree_shape ct (PT T b e ts) = Shape T (fields_shape ct (decl ct T) ts)"
| "fields_shape ct (U # Us) (t # ts) = (U, Some (tree_shape ct t)) # fields_shape ct Us ts"
| "fields_shape ct Us ts = []"

subsection \<open>Example classes and heaps\<close>

text \<open>A class table with five classes: \<open>0\<close> and \<open>1\<close> are unrelated leaf classes,
  class \<open>2\<close> derives from \<open>1\<close>, class \<open>3\<close> declares the fields
  \<open>ast_ptr<0>\<close>, \<open>ast_ptr<1>\<close>, \<open>ast_ptr<1>\<close>, and class \<open>4\<close> derives from
  \<open>1\<close> and declares the field \<open>ast_ptr<0>\<close>.\<close>

definition example_derived :: "cls \<Rightarrow> cls \<Rightarrow> bool" where
  "example_derived D T \<longleftrightarrow> (D = 2 \<or> D = 4) \<and> T = 1"

definition example_decl :: "cls \<Rightarrow> cls list" where
  "example_decl T = (if T = 3 then [0, 1, 1] else if T = 4 then [0] else [])"

definition example_ct :: class_table where
  "example_ct = \<lparr>derived = example_derived, decl = example_decl\<rparr>"

definition no_members :: "addr \<Rightarrow> member_ref list" where
  "no_members a = []"

text \<open>A heap with the objects \<open>10\<close>, \<open>11\<close> and \<open>12\<close> allocated.\<close>

definition example_state :: state where
  "example_state = \<lparr>live = {10, 11, 12}, next_addr = 13, registry = [], members = no_members\<rparr>"

text \<open>A grammar engine for the examples. On the input \<open>abb\<close> the root rule matches
  and the rules with an action have matched a leaf of class \<open>0\<close>, two leaves of class
  \<open>1\<close> and, over them, the root of class \<open>3\<close>. On the input \<open>aa\<close> the root rule
  matches, but it has no action: only the two leaves have one. Any other input is an
  error.\<close>

definition example_engine ::
  "string \<Rightarrow> nat \<Rightarrow> nat \<Rightarrow> string list \<Rightarrow> bool \<times> rule_match list \<times> string list" where
  "example_engine i g ws el =
     (if i = ''abb'' then (True, [(0, 0, 1), (1, 1, 2), (1, 2, 3), (3, 0, 3)], el)
      else if i = ''aa'' then (True, [(0, 0, 1), (0, 1, 2)], el)
      else (False, [], el @ [''syntax error'']))"

section \<open>Theorems\<close>

subsection \<open>Deleting a valid tree\<close>

lemma delete_valid_all:
  "(distinct (node_addrs n) \<longrightarrow> set (node_addrs n) \<subseteq> live s \<longrightarrow>
      delete_node s n = Inr (s\<lparr>live := live s - set (node_addrs n)\<rparr>))"
  "(distinct (ptr_addrs p) \<longrightarrow> set (ptr_addrs p) \<subseteq> live s1 \<longrightarrow>
      ast_ptr_dtor s1 p = Inr (s1\<lparr>live := live s1 - set (ptr_addrs p)\<rparr>))"
  "(distinct (fields_addrs fs) \<longrightarrow> set (fields_addrs fs) \<subseteq> live s2 \<longrightarrow>
      destroy_fields s2 fs = Inr (s2\<lparr>live := live s2 - set (fields_addrs fs)\<rparr>))"
proof (induction s n and s1 p and s2 fs rule: delete_node_ast_ptr_dtor_destroy_fields.induct)
  case (1 s a c fs)
  show ?case
  proof (intro impI)
    assume d: "distinct (node_addrs (Node a c fs))"
      and l: "set (node_addrs (Node a c fs)) \<subseteq> live s"
    from l have a: "a \<in> live s" by simp
    from d l have "destroy_fields s fs = Inr (s\<lparr>live := live s - set (fields_addrs fs)\<rparr>)"
      using "1" a by simp
    moreover have "live s - set (fields_addrs fs) - {a} = live s - insert a (set (fields_addrs fs))"
      by blast
    ultimately show "delete_node s (Node a c fs)
        = Inr (s\<lparr>live := live s - set (node_addrs (Node a c fs))\<rparr>)"
      using a by simp
  qed
next
  case (2 s T)
  show ?case by simp
next
  case (3 s T n)
  then show ?case by simp
next
  case (4 s)
  show ?case by simp
next
  case (5 s p ps)
  show ?case
  proof (intro impI)
    assume d: "distinct (fields_addrs (p # ps))"
      and l: "set (fields_addrs (p # ps)) \<subseteq> live s"
    let ?s' = "s\<lparr>live := live s - set (fields_addrs ps)\<rparr>"
    from d l have ps: "destroy_fields s ps = Inr ?s'"
      using "5.IH"(1) by simp
    from d l have "distinct (ptr_addrs p)" and "set (ptr_addrs p) \<subseteq> live ?s'"
      by auto
    with "5.IH"(2) [OF ps]
    have "ast_ptr_dtor ?s' p = Inr (?s'\<lparr>live := live ?s' - set (ptr_addrs p)\<rparr>)"
      by simp
    moreover have "live s - set (fields_addrs ps) - set (ptr_addrs p)
        = live s - (set (ptr_addrs p) \<union> set (fields_addrs ps))"
      by blast
    ultimately show "destroy_fields s (p # ps)
        = Inr (s\<lparr>live := live s - set (fields_addrs (p # ps))\<rparr>)"
      using ps by simp
  qed
qed

lemma ast_ptr_dtor_valid:
  "valid_ptr s p \<Longrightarrow> ast_ptr_dtor s p = Inr (s\<lparr>live := live s - set (ptr_addrs p)\<rparr>)"
  using delete_valid_all(2) [of p s] by (simp add: valid_ptr_def)

subsection \<open>Construction from the stack and default construction\<close>

lemma fields_addrs_append:
  "fields_addrs (xs @ ys) = fields_addrs xs @ fields_addrs ys"
  by (induction xs) simp_all

lemma ast_ptr_construct_step:
  assumes "is_a ct (rtype nd) (elem_type this)" and "valid_ptr s this"
  shows "ast_ptr_construct ct s this (rest @ [nd])
           = Inr (s\<lparr>live := live s - set (ptr_addrs this)\<rparr>,
                  ast_ptr (elem_type this) (Some nd), rest)"
  using assms by (simp add: ast_ptr_construct_def dynamic_cast_def ast_ptr_dtor_valid)

lemma construct_members_rev:
  "list_all2 (\<lambda>p n. is_a ct (rtype n) (elem_type p)) fs built \<Longrightarrow>
   distinct (fields_addrs fs) \<Longrightarrow> set (fields_addrs fs) \<subseteq> live s \<Longrightarrow>
   construct_members ct a (rev (map (Pair a) [0..<length fs])) (s, fs @ gs, rest @ built)
     = Inr (s\<lparr>live := live s - set (fields_addrs fs)\<rparr>,
            map2 (\<lambda>p n. ast_ptr (elem_type p) (Some n)) fs built @ gs, rest)"
proof (induction fs arbitrary: built s gs rule: rev_induct)
  case Nil
  then show ?case by simp
next
  case (snoc p fs)
  from snoc.prems(1) obtain bs n where built: "built = bs @ [n]"
    and all: "list_all2 (\<lambda>p n. is_a ct (rtype n) (elem_type p)) fs bs"
    and isa: "is_a ct (rtype n) (elem_type p)"
    by (auto simp: list_all2_append1 list_all2_Cons1)
  have len: "length bs = length fs" using all by (simp add: list_all2_lengthD)
  let ?s' = "s\<lparr>live := live s - set (ptr_addrs p)\<rparr>"
  let ?p' = "ast_ptr (elem_type p) (Some n)"
  have vp: "valid_ptr s p"
    using snoc.prems(2,3) by (simp add: valid_ptr_def fields_addrs_append)
  have step: "ast_ptr_construct ct s p (rest @ bs @ [n]) = Inr (?s', ?p', rest @ bs)"
    using ast_ptr_construct_step [OF isa vp, of "rest @ bs"] by simp
  have d: "distinct (fields_addrs fs)" and l: "set (fields_addrs fs) \<subseteq> live ?s'"
    using snoc.prems(2,3) by (auto simp: fields_addrs_append)
  have ih: "construct_members ct a (rev (map (Pair a) [0..<length fs])) (?s', fs @ (?p' # gs), rest @ bs)
     = Inr (?s'\<lparr>live := live ?s' - set (fields_addrs fs)\<rparr>,
            map2 (\<lambda>p n. ast_ptr (elem_type p) (Some n)) fs bs @ (?p' # gs), rest)"
    using snoc.IH [OF all d l] .
  have upd: "(fs @ p # gs)[length fs := ?p'] = fs @ (?p' # gs)"
    by (simp add: list_update_append)
  have nth: "(fs @ p # gs) ! length fs = p"
    by (simp add: nth_append)
  have lv: "live s - set (ptr_addrs p) - set (fields_addrs fs) = live s - set (fields_addrs (fs @ [p]))"
    by (auto simp: fields_addrs_append)
  show ?case
    using step ih upd nth lv len built by simp
qed


lemma ast_member_init_top:
  "registry s = c # r \<Longrightarrow>
   ast_member_init s this = Inr (s\<lparr>members := (members s)(c := members s c @ [this])\<rparr>)"
  by (simp add: ast_member_init_def)

lemma default_fields_eq:
  "registry s = a # r \<Longrightarrow>
   default_fields s a i Ts
     = Inr (s\<lparr>members := (members s)(a := members s a @ map (Pair a) [i..<i + length Ts])\<rparr>,
            map (\<lambda>U. ast_ptr U None) Ts)"
proof (induction Ts arbitrary: s i)
  case Nil
  then show ?case by simp
next
  case (Cons U Us)
  let ?s1 = "s\<lparr>members := (members s)(a := members s a @ [(a, i)])\<rparr>"
  have c: "ast_ptr_ctor s (a, i) U None = Inr (?s1, ast_ptr U None)"
    using Cons.prems by (simp add: ast_ptr_ctor_def ast_member_ctor_def ast_member_init_top)
  have r: "registry ?s1 = a # r" using Cons.prems by simp
  have ih: "default_fields ?s1 a (Suc i) Us
     = Inr (?s1\<lparr>members := (members ?s1)(a := members ?s1 a @ map (Pair a) [Suc i..<Suc i + length Us])\<rparr>,
            map (\<lambda>U. ast_ptr U None) Us)"
    by (rule Cons.IH [OF r])
  have u: "map (Pair a) [i..<i + length (U # Us)] = (a, i) # map (Pair a) [Suc i..<Suc i + length Us]"
    using upt_conv_Cons [of i "i + Suc (length Us)"] by simp
  have "default_fields s a i (U # Us)
      = Inr (?s1\<lparr>members := (members ?s1)(a := members ?s1 a @ map (Pair a) [Suc i..<Suc i + length Us])\<rparr>,
             ast_ptr U None # map (\<lambda>U. ast_ptr U None) Us)"
    by (simp add: c ih del: upt_Suc)
  also have "?s1\<lparr>members := (members ?s1)(a := members ?s1 a @ map (Pair a) [Suc i..<Suc i + length Us])\<rparr>
      = s\<lparr>members := (members s)(a := members s a @ (a, i) # map (Pair a) [Suc i..<Suc i + length Us])\<rparr>"
    by simp
  finally show ?case
    by (simp only: u list.map)
qed

lemma new_default_eq:
  "new_default ct s T
     = Inr (s\<lparr>live := insert (next_addr s) (live s), next_addr := Suc (next_addr s),
              registry := next_addr s # registry s,
              members := (members s)(next_addr s := map (Pair (next_addr s)) [0..<length (decl ct T)])\<rparr>,
            Node (next_addr s) T (map (\<lambda>U. ast_ptr U None) (decl ct T)))"
proof -
  let ?a = "next_addr s"
  let ?s2 = "ast_container_ctor (snd (alloc s)) ?a"
  have r: "registry ?s2 = ?a # registry s"
    by (simp add: ast_container_ctor_def alloc_def)
  show ?thesis
    using default_fields_eq [OF r, of 0 "decl ct T"]
    by (simp add: new_default_def alloc_def ast_container_ctor_def)
qed

lemma fields_addrs_default: "fields_addrs (map (\<lambda>U. ast_ptr U None) Ts) = []"
  by (induction Ts) simp_all

lemma parse_proc_eq:
  assumes "list_all2 (\<lambda>U n. is_a ct (rtype n) U) (decl ct T) built"
  shows "parse_proc ct T b e s (rest @ built)
     = Inr (s\<lparr>live := insert (next_addr s) (live s), next_addr := Suc (next_addr s),
              registry := next_addr s # registry s,
              members := (members s)(next_addr s := map (Pair (next_addr s)) [0..<length (decl ct T)])\<rparr>,
            rest @ [Node (next_addr s) T (map2 (\<lambda>U n. ast_ptr U (Some n)) (decl ct T) built)])"
proof -
  let ?a = "next_addr s"
  let ?fs = "map (\<lambda>U. ast_ptr U None) (decl ct T) :: ast_node ast_ptr list"
  let ?s1 = "s\<lparr>live := insert ?a (live s), next_addr := Suc ?a, registry := ?a # registry s,
              members := (members s)(?a := map (Pair ?a) [0..<length (decl ct T)])\<rparr>"
  have a2: "list_all2 (\<lambda>p n. is_a ct (rtype n) (elem_type p)) ?fs built"
    using assms by (simp add: list_all2_map1)
  have cm: "construct_members ct ?a (rev (map (Pair ?a) [0..<length (decl ct T)])) (?s1, ?fs, rest @ built)
     = Inr (?s1, map2 (\<lambda>p n. ast_ptr (elem_type p) (Some n)) ?fs built, rest)"
    using construct_members_rev [OF a2, of ?s1 ?a "[]" rest]
    by (simp add: fields_addrs_default)
  have m2: "map2 (\<lambda>p n. ast_ptr (elem_type p) (Some n)) ?fs built
      = map2 (\<lambda>U n. ast_ptr U (Some n)) (decl ct T) built"
    by (simp add: zip_map1 case_prod_beta)
  show ?thesis
    by (simp add: parse_proc_def new_default_eq ast_container_construct_def cm m2)
qed

subsection \<open>\<open>ast_ptr<T>::construct\<close> on a stack\<close>

text \<open>
  Claim C2, as amended. When the stack is not empty and the runtime class of its top
  node is not compatible with \<open>T\<close>, \<open>ast_ptr<T>::construct\<close> throws
  \<open>std::logic_error\<close> before it reaches \<open>st.pop_back()\<close>: the stack, the member
  and the heap are as they were, and the incompatible node is still the top of the stack.
\<close>

theorem ast_ptr_construct_mismatch:
  "\<not> is_a ct (rtype nd) (elem_type this) \<Longrightarrow>
   ast_ptr_construct ct s this (rest @ [nd]) = Inl (logic_error, (s, this, rest @ [nd]))"
  by (simp add: ast_ptr_construct_def dynamic_cast_def)

theorem ast_ptr_construct_mismatch_witness:
  "\<not> is_a example_ct (rtype (Node 12 0 [])) (elem_type (ast_ptr 1 (Some (Node 10 1 [])))) \<and>
   ast_ptr_construct example_ct example_state (ast_ptr 1 (Some (Node 10 1 [])))
       ([Node 11 1 []] @ [Node 12 0 []])
     = Inl (logic_error,
            (example_state, ast_ptr 1 (Some (Node 10 1 [])), [Node 11 1 []] @ [Node 12 0 []]))"
proof -
  have h: "\<not> is_a example_ct (rtype (Node 12 0 [])) (elem_type (ast_ptr 1 (Some (Node 10 1 []))))"
    by (simp add: is_a_def example_ct_def example_derived_def)
  show ?thesis
    using h ast_ptr_construct_mismatch [OF h, of example_state "[Node 11 1 []]"] by simp
qed

text \<open>
  Claim C2 as the specification states it fails: on the one-element stack whose node has
  class \<open>0\<close>, a member of type \<open>ast_ptr<1>\<close> throws and the stack still holds the
  node; it is not the popped stack.
\<close>

theorem ast_ptr_construct_not_popped_counterexample:
  "\<not> is_a example_ct (rtype (Node 10 0 [])) 1 \<and>
   ast_ptr_construct example_ct example_state (ast_ptr 1 None) [Node 10 0 []]
     = Inl (logic_error, (example_state, ast_ptr 1 None, [Node 10 0 []])) \<and>
   [Node 10 0 []] \<noteq> butlast [Node 10 0 []]"
  by (simp add: ast_ptr_construct_def dynamic_cast_def is_a_def example_ct_def
      example_derived_def)

text \<open>
  Claim C3. When the stack is not empty and the runtime class of its top node is \<open>T\<close>
  or derived from \<open>T\<close>, \<open>ast_ptr<T>::construct\<close> removes exactly the top node, the
  member owns it afterwards, the value the member owned before (null or a tree of live
  objects) is deleted, and the rest of the stack is unchanged, one element shorter.
\<close>

theorem ast_ptr_construct_takes_top:
  assumes "is_a ct (rtype nd) (elem_type this)" and "valid_ptr s this"
  shows "ast_ptr_construct ct s this (rest @ [nd])
           = Inr (s\<lparr>live := live s - set (ptr_addrs this)\<rparr>,
                  ast_ptr (elem_type this) (Some nd), rest)
         \<and> ast_ptr_dtor s this = Inr (s\<lparr>live := live s - set (ptr_addrs this)\<rparr>)
         \<and> Suc (length rest) = length (rest @ [nd])"
  using assms by (simp add: ast_ptr_construct_def dynamic_cast_def ast_ptr_dtor_valid)

theorem ast_ptr_construct_takes_top_witness:
  "is_a example_ct (rtype (Node 12 2 [])) (elem_type (ast_ptr 1 (Some (Node 10 1 [])))) \<and>
   valid_ptr example_state (ast_ptr 1 (Some (Node 10 1 []))) \<and>
   ast_ptr_construct example_ct example_state (ast_ptr 1 (Some (Node 10 1 [])))
       ([Node 11 0 []] @ [Node 12 2 []])
     = Inr (example_state\<lparr>live := {11, 12}\<rparr>, ast_ptr 1 (Some (Node 12 2 [])), [Node 11 0 []])"
proof -
  have h1: "is_a example_ct (rtype (Node 12 2 [])) (elem_type (ast_ptr 1 (Some (Node 10 1 []))))"
    by (simp add: is_a_def example_ct_def example_derived_def)
  have h2: "valid_ptr example_state (ast_ptr 1 (Some (Node 10 1 [])))"
    by (simp add: valid_ptr_def example_state_def)
  have "live example_state - set (ptr_addrs (ast_ptr 1 (Some (Node 10 1 [])))) = {11, 12}"
    by (auto simp add: example_state_def)
  then show ?thesis
    using h1 h2 ast_ptr_construct_takes_top [OF h1 h2, of "[Node 11 0 []]"] by simp
qed

subsection \<open>\<open>ast_container::construct\<close> and \<open>_parse_proc\<close>\<close>

text \<open>
  Claim C1. A container whose fields A, B, C were registered in declaration order and a
  stack whose top three nodes are, bottom to top, builtA, builtB, builtC (each of a
  class compatible with its field): \<open>ast_container::construct\<close> walks the member
  vector backwards, so C takes builtC, B takes builtB and A takes builtA; the three
  nodes leave the stack and what the fields owned before is deleted.
\<close>

theorem ast_container_construct_order:
  assumes "members s a = [(a, 0), (a, 1), (a, 2)]"
    and "is_a ct (rtype builtA) TA" and "is_a ct (rtype builtB) TB"
    and "is_a ct (rtype builtC) TC"
    and "valid_fields s [ast_ptr TA oldA, ast_ptr TB oldB, ast_ptr TC oldC]"
  shows "ast_container_construct ct b e s
           (Node a c [ast_ptr TA oldA, ast_ptr TB oldB, ast_ptr TC oldC])
           (rest @ [builtA, builtB, builtC])
         = Inr (s\<lparr>live := live s
                    - set (fields_addrs [ast_ptr TA oldA, ast_ptr TB oldB, ast_ptr TC oldC])\<rparr>,
                Node a c [ast_ptr TA (Some builtA), ast_ptr TB (Some builtB),
                          ast_ptr TC (Some builtC)],
                rest)"
proof -
  let ?fs = "[ast_ptr TA oldA, ast_ptr TB oldB, ast_ptr TC oldC]"
  have all: "list_all2 (\<lambda>p n. is_a ct (rtype n) (elem_type p)) ?fs [builtA, builtB, builtC]"
    using assms(2-4) by simp
  have d: "distinct (fields_addrs ?fs)" and l: "set (fields_addrs ?fs) \<subseteq> live s"
    using assms(5) by (simp_all add: valid_fields_def)
  have ms: "rev (members s a) = rev (map (Pair a) [0..<length ?fs])"
    using assms(1) by (simp add: upt_rec numeral_3_eq_3 numeral_2_eq_2)
  have "construct_members ct a (rev (members s a)) (s, ?fs, rest @ [builtA, builtB, builtC])
      = Inr (s\<lparr>live := live s - set (fields_addrs ?fs)\<rparr>,
             [ast_ptr TA (Some builtA), ast_ptr TB (Some builtB), ast_ptr TC (Some builtC)],
             rest)"
    unfolding ms using construct_members_rev [OF all d l, of a "[]" rest] by simp
  then show ?thesis
    by (simp add: ast_container_construct_def)
qed

theorem ast_container_construct_order_witness:
  "members (example_state\<lparr>members := no_members(3 := [(3, 0), (3, 1), (3, 2)])\<rparr>) 3
     = [(3, 0), (3, 1), (3, 2)] \<and>
   is_a example_ct (rtype (Node 10 0 [])) 0 \<and>
   is_a example_ct (rtype (Node 11 2 [])) 1 \<and>
   is_a example_ct (rtype (Node 12 1 [])) 1 \<and>
   valid_fields (example_state\<lparr>members := no_members(3 := [(3, 0), (3, 1), (3, 2)])\<rparr>)
     [ast_ptr 0 None, ast_ptr 1 None, ast_ptr 1 None] \<and>
   ast_container_construct example_ct 0 5
       (example_state\<lparr>members := no_members(3 := [(3, 0), (3, 1), (3, 2)])\<rparr>)
       (Node 3 3 [ast_ptr 0 None, ast_ptr 1 None, ast_ptr 1 None])
       ([] @ [Node 10 0 [], Node 11 2 [], Node 12 1 []])
     = Inr (example_state\<lparr>members := no_members(3 := [(3, 0), (3, 1), (3, 2)])\<rparr>,
            Node 3 3 [ast_ptr 0 (Some (Node 10 0 [])), ast_ptr 1 (Some (Node 11 2 [])),
                      ast_ptr 1 (Some (Node 12 1 []))],
            [])"
proof -
  let ?s = "example_state\<lparr>members := no_members(3 := [(3, 0), (3, 1), (3, 2)])\<rparr>"
  have m: "members ?s 3 = [(3, 0), (3, 1), (3, 2)]" by simp
  have a: "is_a example_ct (rtype (Node 10 0 [])) 0" by (simp add: is_a_def)
  have b: "is_a example_ct (rtype (Node 11 2 [])) 1"
    by (simp add: is_a_def example_ct_def example_derived_def)
  have c: "is_a example_ct (rtype (Node 12 1 [])) 1" by (simp add: is_a_def)
  have v: "valid_fields ?s [ast_ptr 0 None, ast_ptr 1 None, ast_ptr 1 None]"
    by (simp add: valid_fields_def)
  show ?thesis
    using m a b c v ast_container_construct_order [OF m a b c v, of 0 5 3 "[]"]
    by (simp add: example_state_def)
qed

text \<open>
  Claim C4. For a class \<open>T\<close> that declares \<open>N\<close> pointer members and a stack whose
  top \<open>N\<close> nodes are compatible with them in order, one call of \<open>_parse_proc\<close>
  takes these \<open>N\<close> nodes off the stack and pushes the new object, which owns them: the
  stack has its size before, minus \<open>N\<close>, plus one, and the new object is its top.
\<close>

theorem parse_proc_stack_size:
  assumes "list_all2 (\<lambda>U n. is_a ct (rtype n) U) (decl ct T) built"
  shows "parse_proc ct T b e s (rest @ built)
     = Inr (s\<lparr>live := insert (next_addr s) (live s), next_addr := Suc (next_addr s),
              registry := next_addr s # registry s,
              members := (members s)(next_addr s := map (Pair (next_addr s)) [0..<length (decl ct T)])\<rparr>,
            rest @ [Node (next_addr s) T (map2 (\<lambda>U n. ast_ptr U (Some n)) (decl ct T) built)])
     \<and> length (rest @ [Node (next_addr s) T (map2 (\<lambda>U n. ast_ptr U (Some n)) (decl ct T) built)])
         = length (rest @ built) - length (decl ct T) + 1"
  using parse_proc_eq [OF assms] list_all2_lengthD [OF assms] by simp

theorem parse_proc_stack_size_witness:
  "list_all2 (\<lambda>U n. is_a example_ct (rtype n) U) (decl example_ct 3)
      [Node 10 0 [], Node 11 2 [], Node 12 1 []] \<and>
   parse_proc example_ct 3 0 5 example_state ([Node 9 1 []] @ [Node 10 0 [], Node 11 2 [], Node 12 1 []])
     = Inr (example_state\<lparr>live := {10, 11, 12, 13}, next_addr := 14, registry := [13],
              members := no_members(13 := [(13, 0), (13, 1), (13, 2)])\<rparr>,
            [Node 9 1 [],
             Node 13 3 [ast_ptr 0 (Some (Node 10 0 [])), ast_ptr 1 (Some (Node 11 2 [])),
                        ast_ptr 1 (Some (Node 12 1 []))]])"
proof -
  have h: "list_all2 (\<lambda>U n. is_a example_ct (rtype n) U) (decl example_ct 3)
      [Node 10 0 [], Node 11 2 [], Node 12 1 []]"
    by (simp add: is_a_def example_ct_def example_derived_def example_decl_def)
  have d: "decl example_ct 3 = [0, 1, 1]"
    by (simp add: example_ct_def example_decl_def)
  have u: "[0..<3] = [0, 1, 2]"
    by (simp add: upt_rec numeral_3_eq_3 numeral_2_eq_2)
  have l: "insert 13 (live example_state) = {10, 11, 12, 13}"
    by (auto simp: example_state_def)
  show ?thesis
    using h parse_proc_stack_size [OF h, of 0 5 example_state "[Node 9 1 []]"]
    by (simp add: d u l) (auto simp add: example_state_def numeral_2_eq_2)
qed

text \<open>
  Claim C9. For a container without member fields, whose member vector is empty,
  \<open>ast_container::construct\<close> over any range \<open>b\<close>, \<open>e\<close> leaves the stack and
  the heap as they are, whatever the stack holds, and the node has no children.
\<close>

theorem ast_container_construct_no_members:
  assumes "members s (node_addr this) = []" and "node_fields this = []"
  shows "ast_container_construct ct b e s this st = Inr (s, this, st) \<and> children this = []"
  using assms by (cases this) (simp add: ast_container_construct_def children_def)

theorem ast_container_construct_no_members_witness:
  "members example_state (node_addr (Node 10 0 [])) = [] \<and>
   node_fields (Node 10 0 []) = [] \<and>
   ast_container_construct example_ct 0 5 example_state (Node 10 0 []) [Node 11 2 [], Node 12 1 []]
     = Inr (example_state, Node 10 0 [], [Node 11 2 [], Node 12 1 []]) \<and>
   children (Node 10 0 []) = []"
proof -
  have m: "members example_state (node_addr (Node 10 0 [])) = []"
    by (simp add: example_state_def no_members_def)
  have f: "node_fields (Node 10 0 []) = []" by simp
  show ?thesis
    using m f ast_container_construct_no_members [OF m f, of example_ct 0 5 "[Node 11 2 [], Node 12 1 []]"]
    by simp
qed

subsection \<open>Copying a tree\<close>

lemma new_copy_InrE:
  assumes "new_copy ct s T (Node a c fs) = Inr (s', n')"
  obtains fs' where "a \<in> live s"
    and "copy_fields ct (copy_start s) (next_addr s) 0 (length (decl ct T)) fs = Inr (s', fs')"
    and "n' = Node (next_addr s) T fs'"
  using assms
  by (auto simp: alloc_def ast_container_copy_ctor_def copy_start_def
      split: if_splits sum.splits)

lemma copy_ctor_InrE:
  assumes "ast_ptr_copy_ctor ct s this p = Inr (s', p')"
  obtains c r where "registry s = c # r" and "m_ptr p = None"
      and "s' = s\<lparr>members := (members s)(c := members s c @ [this])\<rparr>" and "p' = p"
    | c r n n' where "registry s = c # r" and "m_ptr p = Some n"
      and "new_copy ct (s\<lparr>members := (members s)(c := members s c @ [this])\<rparr>) (elem_type p) n
             = Inr (s', n')"
      and "p' = ast_ptr (elem_type p) (Some n')"
proof (cases p)
  case (ast_ptr T obj)
  show ?thesis
  proof (cases obj)
    case None
    with ast_ptr assms that(1) show ?thesis
      by (auto simp: ast_member_ctor_def ast_member_init_def split: list.splits sum.splits)
  next
    case (Some n)
    with ast_ptr assms that(2) show ?thesis
      by (auto simp: ast_member_ctor_def ast_member_init_def split: list.splits sum.splits)
  qed
qed

lemma copy_fields_InrE:
  assumes "copy_fields ct s a i k (p # ps) = Inr (s', ps')"
  obtains "k \<le> i" and "s' = s" and "ps' = []"
  | s1 p' ps1 where "i < k" and "ast_ptr_copy_ctor ct s (a, i) p = Inr (s1, p')"
      and "copy_fields ct s1 a (Suc i) k ps = Inr (s', ps1)" and "ps' = p' # ps1"
  using assms by (auto split: if_splits sum.splits)

lemma member_ctor_top:
  "registry s = c # r \<Longrightarrow>
   ast_member_ctor s this = Inr (s\<lparr>members := (members s)(c := members s c @ [this])\<rparr>)"
  by (simp add: ast_member_ctor_def ast_member_init_def)

lemma copy_addrs:
  "new_copy ct s T n = Inr (s', n') \<Longrightarrow>
     set (node_addrs n') = {next_addr s..<next_addr s'} \<and> distinct (node_addrs n') \<and>
     live s' = live s \<union> set (node_addrs n') \<and> node_addr n' = next_addr s \<and>
     next_addr s < next_addr s' \<and> registry s' = rev (node_addrs n') @ registry s"
  "ast_ptr_copy_ctor ct s1 this p = Inr (s1', p') \<Longrightarrow>
     set (ptr_addrs p') = {next_addr s1..<next_addr s1'} \<and> distinct (ptr_addrs p') \<and>
     live s1' = live s1 \<union> set (ptr_addrs p') \<and>
     next_addr s1 \<le> next_addr s1' \<and> registry s1' = rev (ptr_addrs p') @ registry s1"
  "copy_fields ct s2 a i k ps = Inr (s2', ps') \<Longrightarrow>
     set (fields_addrs ps') = {next_addr s2..<next_addr s2'} \<and> distinct (fields_addrs ps') \<and>
     live s2' = live s2 \<union> set (fields_addrs ps') \<and>
     next_addr s2 \<le> next_addr s2' \<and> registry s2' = rev (fields_addrs ps') @ registry s2"
proof (induction ct s T n and ct s1 this p and ct s2 a i k ps
    arbitrary: s' n' and s1' p' and s2' ps'
    rule: new_copy_ast_ptr_copy_ctor_copy_fields.induct)
  case (1 ct s T a c fs)
  from "1.prems" obtain fs' where live: "a \<in> live s"
    and cf: "copy_fields ct (copy_start s) (next_addr s) 0 (length (decl ct T)) fs = Inr (s', fs')"
    and n': "n' = Node (next_addr s) T fs'"
    by (rule new_copy_InrE)
  have ih: "set (fields_addrs fs') = {next_addr (copy_start s)..<next_addr s'} \<and>
      distinct (fields_addrs fs') \<and> live s' = live (copy_start s) \<union> set (fields_addrs fs') \<and>
      next_addr (copy_start s) \<le> next_addr s' \<and>
      registry s' = rev (fields_addrs fs') @ registry (copy_start s)"
    using "1.IH" [of "alloc s" "next_addr s" "snd (alloc s)" "copy_start s" s' fs'] live cf
    by (simp add: alloc_def ast_container_copy_ctor_def copy_start_def)
  then have le: "Suc (next_addr s) \<le> next_addr s'"
    by (simp add: copy_start_def)
  have "insert (next_addr s) {Suc (next_addr s)..<next_addr s'} = {next_addr s..<next_addr s'}"
    using le by auto
  then show ?case
    using ih n' le by (auto simp: copy_start_def)
next
  case (2 ct s this T)
  then show ?case
    by (auto simp: ast_member_ctor_def ast_member_init_def split: list.splits)
next
  case (3 ct s this T n)
  from "3.prems" show ?case
  proof (cases rule: copy_ctor_InrE)
    case (1 c r)
    then show ?thesis by simp
  next
    case (2 c r m n')
    from "3.IH" [OF member_ctor_top [OF 2(1)], of s1' n'] 2 show ?thesis by simp
  qed
next
  case (4 ct s this i k)
  then show ?case by simp
next
  case (5 ct s this i k p ps)
  from "5.prems" show ?case
  proof (cases rule: copy_fields_InrE)
    case 1
    then show ?thesis by simp
  next
    case (2 s1 p' ps1)
    have a: "set (ptr_addrs p') = {next_addr s..<next_addr s1} \<and> distinct (ptr_addrs p') \<and>
        live s1 = live s \<union> set (ptr_addrs p') \<and> next_addr s \<le> next_addr s1 \<and>
        registry s1 = rev (ptr_addrs p') @ registry s"
      using "5.IH"(1) [OF _ 2(2)] 2(1) by simp
    have b: "set (fields_addrs ps1) = {next_addr s1..<next_addr s2'} \<and> distinct (fields_addrs ps1) \<and>
        live s2' = live s1 \<union> set (fields_addrs ps1) \<and> next_addr s1 \<le> next_addr s2' \<and>
        registry s2' = rev (fields_addrs ps1) @ registry s1"
      using "5.IH"(2) [OF _ 2(2) refl 2(3)] 2(1) by simp
    have u: "{next_addr s..<next_addr s1} \<union> {next_addr s1..<next_addr s2'}
        = {next_addr s..<next_addr s2'}"
      using a b by auto
    have d: "{next_addr s..<next_addr s1} \<inter> {next_addr s1..<next_addr s2'} = {}"
      by auto
    show ?thesis
      unfolding 2(4) using a b u d by (simp add: Un_assoc)
  qed
qed

lemma new_copy_unfold:
  "a \<in> live s \<Longrightarrow>
   new_copy ct s T (Node a c fs)
     = (case copy_fields ct (copy_start s) (next_addr s) 0 (length (decl ct T)) fs of
          Inl e \<Rightarrow> Inl e
        | Inr (s3, fs') \<Rightarrow> Inr (s3, Node (next_addr s) T fs'))"
  by (simp add: alloc_def ast_container_copy_ctor_def copy_start_def)

lemma take1_rev_append:
  "xs \<noteq> [] \<Longrightarrow> set (take 1 (rev xs @ ys)) \<subseteq> set xs"
proof -
  assume "xs \<noteq> []"
  then obtain z zs where r: "rev xs = z # zs"
    by (cases "rev xs") auto
  then have "z \<in> set (rev xs)" by simp
  then show ?thesis using r by simp
qed

lemma post_map [simp]:
  "post (case r of Inl e \<Rightarrow> Inl e | Inr (s, x) \<Rightarrow> Inr (s, f x)) = post r"
  by (cases r) (auto simp: post_def)

lemma post_simps [simp]: "post (Inl (f, s)) = s" "post (Inr (s, x)) = s"
  by (simp_all add: post_def)

text \<open>Copying appends only to the member vector of the container on top of the registry
  and to those of the containers it allocates, whether it ends in a fault or not.\<close>

lemma copy_frame:
  "d < next_addr s \<Longrightarrow> members (post (new_copy ct s T n)) d = members s d"
  "d1 < next_addr s1 \<Longrightarrow> d1 \<notin> set (take 1 (registry s1)) \<Longrightarrow>
     members (post (ast_ptr_copy_ctor ct s1 this p)) d1 = members s1 d1"
  "d2 < next_addr s2 \<Longrightarrow> d2 \<notin> set (take 1 (registry s2)) \<Longrightarrow>
     members (post (copy_fields ct s2 a i k ps)) d2 = members s2 d2"
proof (induction ct s T n and ct s1 this p and ct s2 a i k ps
    arbitrary: d and d1 and d2
    rule: new_copy_ast_ptr_copy_ctor_copy_fields.induct)
  case (1 ct s T a c fs)
  show ?case
  proof (cases "a \<in> live s")
    case False
    then show ?thesis by simp
  next
    case True
    have "members (post (copy_fields ct (copy_start s) (next_addr s) 0 (length (decl ct T)) fs)) d
        = members (copy_start s) d"
      using "1.IH" [of "alloc s" "next_addr s" "snd (alloc s)" "copy_start s" d] True "1.prems"
      by (simp add: alloc_def ast_container_copy_ctor_def copy_start_def)
    then show ?thesis
      unfolding new_copy_unfold [OF True] using "1.prems" by (simp add: copy_start_def)
  qed
next
  case (2 ct s this T)
  then show ?case
    by (cases "registry s") (auto simp: ast_member_ctor_def ast_member_init_def)
next
  case (3 ct s this T n)
  show ?case
  proof (cases "registry s")
    case Nil
    then show ?thesis by (simp add: ast_member_ctor_def ast_member_init_def)
  next
    case (Cons c r)
    let ?s1 = "s\<lparr>members := (members s)(c := members s c @ [this])\<rparr>"
    have mc: "ast_member_ctor s this = Inr ?s1"
      using Cons by (rule member_ctor_top)
    have "members (post (new_copy ct ?s1 T n)) d1 = members ?s1 d1"
      using "3.IH" [OF mc, of d1] "3.prems"(1) by simp
    then show ?thesis
      using mc Cons "3.prems"(2) by simp
  qed
next
  case (4 ct s this i k)
  then show ?case by simp
next
  case (5 ct s this i k p ps)
  show ?case
  proof (cases "k \<le> i")
    case True
    then show ?thesis by simp
  next
    case False
    have q: "members (post (ast_ptr_copy_ctor ct s (this, i) p)) d2 = members s d2"
      using "5.IH"(1) [OF False "5.prems"] .
    show ?thesis
    proof (cases "ast_ptr_copy_ctor ct s (this, i) p")
      case (Inl e)
      then show ?thesis
        using False q by (cases e) simp
    next
      case (Inr b)
      obtain s1 p' where b: "b = (s1, p')" by (cases b)
      have c: "ast_ptr_copy_ctor ct s (this, i) p = Inr (s1, p')"
        using Inr b by simp
      have ad: "set (ptr_addrs p') = {next_addr s..<next_addr s1}"
        and le: "next_addr s \<le> next_addr s1"
        and rg: "registry s1 = rev (ptr_addrs p') @ registry s"
        using copy_addrs(2) [OF c] by simp_all
      have top: "d2 \<notin> set (take 1 (registry s1))"
      proof (cases "ptr_addrs p' = []")
        case True
        then show ?thesis using rg "5.prems"(2) by simp
      next
        case False
        from take1_rev_append [OF False, of "registry s"]
        have "set (take 1 (registry s1)) \<subseteq> {next_addr s..<next_addr s1}"
          using rg ad by simp
        then show ?thesis
          using "5.prems"(1) by auto
      qed
      have "members (post (copy_fields ct s1 this (Suc i) k ps)) d2 = members s1 d2"
        using "5.IH"(2) [OF False c refl _ top] "5.prems"(1) le by simp
      moreover have "members s1 d2 = members s d2"
        using q c by simp
      ultimately show ?thesis
        using False c by simp
    qed
  qed
qed




text \<open>A \<open>delete\<close> changes nothing but the set of live objects.\<close>

lemma delete_frame:
  "delete_node s n = Inr s' \<Longrightarrow>
     members s' = members s \<and> next_addr s' = next_addr s \<and> registry s' = registry s"
  "ast_ptr_dtor s1 p = Inr s1' \<Longrightarrow>
     members s1' = members s1 \<and> next_addr s1' = next_addr s1 \<and> registry s1' = registry s1"
  "destroy_fields s2 fs = Inr s2' \<Longrightarrow>
     members s2' = members s2 \<and> next_addr s2' = next_addr s2 \<and> registry s2' = registry s2"
proof (induction s n and s1 p and s2 fs arbitrary: s' and s1' and s2'
    rule: delete_node_ast_ptr_dtor_destroy_fields.induct)
  case (1 s a c fs)
  then show ?case
    by (auto split: if_splits sum.splits)
next
  case (5 s p ps)
  from "5.prems" obtain s1 where a: "destroy_fields s ps = Inr s1"
    and b: "ast_ptr_dtor s1 p = Inr s2'"
    by (auto split: sum.splits)
  show ?case
    using "5.IH"(1) [OF a] "5.IH"(2) [OF a b] by simp
qed simp_all



subsection \<open>Copies and assignments of \<open>ast_ptr<T>\<close>\<close>









subsection \<open>Self-assignment\<close>

text \<open>
  Claim C10. The assignment operators of \<open>ast_ptr<T>\<close> delete the owned object first
  and have no guard against self-assignment: for a member that owns an object, \<open>p = p\<close>
  and \<open>p = p.get()\<close> end in the use of a deleted object, in the state in which what
  the member owned has been deleted: the source pointer, read after the \<open>delete\<close>,
  refers to the deleted object, and the value owned before is not kept.
\<close>

theorem ast_ptr_self_assign_dangles:
  assumes "valid_ptr s p" and "m_ptr p = Some n"
  shows "ast_ptr_assign ct s p pref p = Inl (dangling, s\<lparr>live := live s - set (ptr_addrs p)\<rparr>)
       \<and> ast_ptr_assign_raw ct s p (m_ptr p)
           = Inl (dangling, s\<lparr>live := live s - set (ptr_addrs p)\<rparr>)
       \<and> node_addr n \<in> live s
       \<and> node_addr n \<notin> live (s\<lparr>live := live s - set (ptr_addrs p)\<rparr>)"
proof -
  obtain T where p: "p = ast_ptr T (Some n)"
    using assms(2) by (cases p) simp
  obtain a c fs where n: "n = Node a c fs"
    by (cases n)
  have d: "ast_ptr_dtor s p = Inr (s\<lparr>live := live s - set (ptr_addrs p)\<rparr>)"
    using assms(1) by (rule ast_ptr_dtor_valid)
  have was: "node_addr n \<in> live s"
    using assms(1) p n by (simp add: valid_ptr_def)
  have dead: "node_addr n \<notin> live (s\<lparr>live := live s - set (ptr_addrs p)\<rparr>)"
    using p n by simp
  have c: "new_copy ct (s\<lparr>live := live s - set (ptr_addrs p)\<rparr>) (elem_type p) n
      = Inl (dangling, s\<lparr>live := live s - set (ptr_addrs p)\<rparr>)"
    using p n by simp
  show ?thesis
    using d was dead c assms(2) by (simp add: ast_ptr_assign_def ast_ptr_assign_raw_def)
qed

theorem ast_ptr_self_assign_dangles_witness:
  "valid_ptr example_state (ast_ptr 1 (Some (Node 11 1 []))) \<and>
   m_ptr (ast_ptr 1 (Some (Node 11 1 []))) = Some (Node 11 1 []) \<and>
   ast_ptr_assign example_ct example_state (ast_ptr 1 (Some (Node 11 1 []))) (10, 1)
       (ast_ptr 1 (Some (Node 11 1 []))) = Inl (dangling, example_state\<lparr>live := {10, 12}\<rparr>) \<and>
   ast_ptr_assign_raw example_ct example_state (ast_ptr 1 (Some (Node 11 1 [])))
       (Some (Node 11 1 [])) = Inl (dangling, example_state\<lparr>live := {10, 12}\<rparr>)"
proof -
  have h1: "valid_ptr example_state (ast_ptr 1 (Some (Node 11 1 [])))"
    by (simp add: valid_ptr_def example_state_def)
  have h2: "m_ptr (ast_ptr 1 (Some (Node 11 1 []))) = Some (Node 11 1 [])"
    by simp
  have "live example_state - set (ptr_addrs (ast_ptr 1 (Some (Node 11 1 [])))) = {10, 12}"
    by (auto simp add: example_state_def)
  then show ?thesis
    using h1 h2 ast_ptr_self_assign_dangles [OF h1 h2, of example_ct "(10, 1)"] by simp
qed

subsection \<open>The construction registry\<close>




subsection \<open>Assignment registers nothing\<close>

lemma ast_ptr_assign_raw_frame:
  "d < next_addr s \<Longrightarrow> members (post (ast_ptr_assign_raw ct s p obj)) d = members s d"
proof (cases "ast_ptr_dtor s p")
  case (Inl e)
  then show ?thesis by (simp add: ast_ptr_assign_raw_def)
next
  case (Inr s1)
  assume d: "d < next_addr s"
  have f: "members s1 = members s" "next_addr s1 = next_addr s"
    using delete_frame(2) [OF Inr] by simp_all
  show ?thesis
  proof (cases obj)
    case None
    then show ?thesis using Inr f by (simp add: ast_ptr_assign_raw_def)
  next
    case (Some n)
    have "members (post (new_copy ct s1 (elem_type p) n)) d = members s1 d"
      using copy_frame(1) [of d s1 ct "elem_type p" n] d f by simp
    then show ?thesis
      using Inr Some f by (simp add: ast_ptr_assign_raw_def del: new_copy.simps)
  qed
qed

lemma ast_ptr_assign_frame:
  "d < next_addr s \<Longrightarrow> members (post (ast_ptr_assign ct s p qref q)) d = members s d"
proof (cases "ast_ptr_dtor s p")
  case (Inl e)
  then show ?thesis by (simp add: ast_ptr_assign_def)
next
  case (Inr s1)
  assume d: "d < next_addr s"
  have f: "members s1 = members s" "next_addr s1 = next_addr s"
    using delete_frame(2) [OF Inr] by simp_all
  show ?thesis
  proof (cases "fst qref \<in> live s1")
    case False
    then show ?thesis using Inr f by (simp add: ast_ptr_assign_def)
  next
    case True
    show ?thesis
    proof (cases "m_ptr q")
      case None
      then show ?thesis using Inr True f by (simp add: ast_ptr_assign_def)
    next
      case (Some n)
      have "members (post (new_copy ct s1 (elem_type p) n)) d = members s1 d"
        using copy_frame(1) [of d s1 ct "elem_type p" n] d f by simp
      then show ?thesis
        using Inr True Some f by (simp add: ast_ptr_assign_def del: new_copy.simps)
    qed
  qed
qed

text \<open>
  Claim C7. A member registers when it is constructed or copy constructed, and an
  assignment registers nothing: \<open>ast_member::operator=\<close> and
  \<open>ast_container::operator=\<close> leave the state as it is, and whatever the state, the
  target and the source, the two assignment operators of \<open>ast_ptr<T>\<close> end, with or
  without a fault, in a state where the member vector of every container that existed
  before the assignment is what it was.
\<close>

theorem registration_only_on_construction:
  "(registry s0 = c # r \<longrightarrow>
      ast_member_ctor s0 this = Inr (s0\<lparr>members := (members s0)(c := members s0 c @ [this])\<rparr>) \<and>
      ast_member_copy_ctor s0 this src
        = Inr (s0\<lparr>members := (members s0)(c := members s0 c @ [this])\<rparr>))
   \<and> ast_member_assign s this src = (s, this)
   \<and> ast_container_assign s n1 n2 = (s, n1)
   \<and> (\<forall>d<next_addr s. members (post (ast_ptr_assign ct s p qref q)) d = members s d)
   \<and> (\<forall>d<next_addr s. members (post (ast_ptr_assign_raw ct s p obj)) d = members s d)"
  by (simp add: ast_member_ctor_def ast_member_copy_ctor_def ast_member_init_def
      ast_member_assign_def ast_container_assign_def ast_ptr_assign_frame
      ast_ptr_assign_raw_frame)

theorem registration_only_on_construction_witness:
  "registry (example_state\<lparr>registry := [10]\<rparr>) = 10 # [] \<and>
   ast_member_ctor (example_state\<lparr>registry := [10]\<rparr>) (10, 0)
     = Inr (example_state\<lparr>registry := [10], members := no_members(10 := [(10, 0)])\<rparr>) \<and>
   ast_member_assign (example_state\<lparr>registry := [10]\<rparr>) (10, 0) (10, 1)
     = (example_state\<lparr>registry := [10]\<rparr>, (10, 0)) \<and>
   (10 :: nat) < next_addr (example_state\<lparr>members := no_members(10 := [(10, 0), (10, 1), (10, 2)])\<rparr>) \<and>
   ast_ptr_assign example_ct
       (example_state\<lparr>members := no_members(10 := [(10, 0), (10, 1), (10, 2)])\<rparr>)
       (ast_ptr 1 (Some (Node 11 1 []))) (10, 2) (ast_ptr 1 (Some (Node 12 2 [])))
     = Inr (example_state\<lparr>live := {10, 12, 13}, next_addr := 14, registry := [13],
              members := no_members(10 := [(10, 0), (10, 1), (10, 2)], 13 := [])\<rparr>,
            ast_ptr 1 (Some (Node 13 1 []))) \<and>
   members (example_state\<lparr>live := {10, 12, 13}, next_addr := 14, registry := [13],
              members := no_members(10 := [(10, 0), (10, 1), (10, 2)], 13 := [])\<rparr>) 10
     = [(10, 0), (10, 1), (10, 2)]"
proof -
  let ?c = "example_state\<lparr>registry := [10]\<rparr>"
  let ?s = "example_state\<lparr>members := no_members(10 := [(10, 0), (10, 1), (10, 2)])\<rparr>"
  let ?p = "ast_ptr 1 (Some (Node 11 1 []))"
  let ?q = "ast_ptr 1 (Some (Node 12 2 []))"
  have d: "decl example_ct 1 = []" "decl example_ct (Suc 0) = []"
    by (simp_all add: example_ct_def example_decl_def)
  have h1: "registry ?c = 10 # []" by simp
  have h2: "(10 :: nat) < next_addr ?s" by (simp add: example_state_def)
  note t = registration_only_on_construction
    [of ?c 10 "[]" "(10, 0)" "(10, 1)" ?s _ _ example_ct ?p "(10, 2)" ?q]
  have a: "ast_ptr_assign example_ct ?s ?p (10, 2) ?q
     = Inr (example_state\<lparr>live := {10, 12, 13}, next_addr := 14, registry := [13],
              members := no_members(10 := [(10, 0), (10, 1), (10, 2)], 13 := [])\<rparr>,
            ast_ptr 1 (Some (Node 13 1 [])))"
    by (auto simp add: d ast_ptr_assign_def alloc_def ast_container_copy_ctor_def
        example_state_def)
  have c: "ast_member_ctor ?c (10, 0)
      = Inr (?c\<lparr>members := (members ?c)(10 := members ?c 10 @ [(10, 0)])\<rparr>)"
    using t [THEN conjunct1] h1 by simp
  have f: "members (post (ast_ptr_assign example_ct ?s ?p (10, 2) ?q)) 10 = members ?s 10"
    using t [THEN conjunct2, THEN conjunct2, THEN conjunct2, THEN conjunct1] h2 by blast
  have m: "members (example_state\<lparr>live := {10, 12, 13}, next_addr := 14, registry := [13],
              members := no_members(10 := [(10, 0), (10, 1), (10, 2)], 13 := [])\<rparr>) 10
     = [(10, 0), (10, 1), (10, 2)]"
    using f unfolding a by simp
  show ?thesis
    using h1 h2 a c m
    by (simp add: ast_member_assign_def example_state_def no_members_def)
qed

subsection \<open>The driver\<close>

lemma run_parse_procs_append:
  "run_parse_procs ct s st (xs @ ys)
     = (case run_parse_procs ct s st xs of
          Inl f \<Rightarrow> Inl f
        | Inr (s', st') \<Rightarrow> run_parse_procs ct s' st' ys)"
proof (induction xs arbitrary: s st)
  case Nil
  then show ?case by simp
next
  case (Cons x xs)
  obtain T b e where x: "x = (T, b, e)" by (cases x)
  show ?case
    unfolding x using Cons.IH by (simp split: sum.splits)
qed

lemma shape_of_fields_built:
  "length Us = length ns \<Longrightarrow>
   shape_of_fields (map2 (\<lambda>U n. ast_ptr U (Some n)) Us ns)
     = map2 (\<lambda>U n. (U, Some (shape_of n))) Us ns"
  by (induction Us ns rule: list_induct2) simp_all

text \<open>The parse procedures of a tree of matches that fits the classes leave one node
  more on the stack: the node built for the root, which owns the nodes built below.\<close>

lemma run_parse_procs_tree:
  "fits ct t \<longrightarrow> (\<forall>s st. \<exists>s' n. run_parse_procs ct s st (matches_of t) = Inr (s', st @ [n]) \<and>
      rtype n = tree_class t \<and> shape_of n = tree_shape ct t)"
  "fits_fields ct Us ts \<longrightarrow> (\<forall>s st. \<exists>s' ns. run_parse_procs ct s st (matches_of_list ts) = Inr (s', st @ ns) \<and>
      list_all2 (\<lambda>U n. is_a ct (rtype n) U) Us ns \<and>
      map2 (\<lambda>U n. (U, Some (shape_of n))) Us ns = fields_shape ct Us ts)"
proof (induction ct t and ct Us ts rule: fits_fits_fields.induct)
  case (1 ct T b e ts)
  show ?case
  proof (intro impI allI)
    fix s st
    assume "fits ct (PT T b e ts)"
    then have "fits_fields ct (decl ct T) ts" by simp
    with 1 obtain s1 ns where r: "run_parse_procs ct s st (matches_of_list ts) = Inr (s1, st @ ns)"
      and all: "list_all2 (\<lambda>U n. is_a ct (rtype n) U) (decl ct T) ns"
      and sh: "map2 (\<lambda>U n. (U, Some (shape_of n))) (decl ct T) ns = fields_shape ct (decl ct T) ts"
      by blast
    let ?n = "Node (next_addr s1) T (map2 (\<lambda>U n. ast_ptr U (Some n)) (decl ct T) ns)"
    have len: "length (decl ct T) = length ns"
      using all by (rule list_all2_lengthD)
    have "run_parse_procs ct s st (matches_of (PT T b e ts))
        = run_parse_procs ct s1 (st @ ns) [(T, b, e)]"
      by (simp add: run_parse_procs_append r)
    also have "\<dots> = Inr (s1\<lparr>live := insert (next_addr s1) (live s1), next_addr := Suc (next_addr s1),
              registry := next_addr s1 # registry s1,
              members := (members s1)(next_addr s1 := map (Pair (next_addr s1)) [0..<length (decl ct T)])\<rparr>,
            st @ [?n])"
      by (simp add: parse_proc_eq [OF all])
    finally have "run_parse_procs ct s st (matches_of (PT T b e ts))
        = Inr (s1\<lparr>live := insert (next_addr s1) (live s1), next_addr := Suc (next_addr s1),
              registry := next_addr s1 # registry s1,
              members := (members s1)(next_addr s1 := map (Pair (next_addr s1)) [0..<length (decl ct T)])\<rparr>,
            st @ [?n])" .
    moreover have "rtype ?n = tree_class (PT T b e ts)" by simp
    moreover have "shape_of ?n = tree_shape ct (PT T b e ts)"
      using sh by (simp add: shape_of_fields_built [OF len])
    ultimately show "\<exists>s' n. run_parse_procs ct s st (matches_of (PT T b e ts)) = Inr (s', st @ [n]) \<and>
        rtype n = tree_class (PT T b e ts) \<and> shape_of n = tree_shape ct (PT T b e ts)"
      by blast
  qed
next
  case (2 ct)
  show ?case by simp
next
  case (3 ct U Us t ts)
  show ?case
  proof (intro impI allI)
    fix s st
    assume f: "fits_fields ct (U # Us) (t # ts)"
    then have isa: "is_a ct (tree_class t) U" and ft: "fits ct t" and fts: "fits_fields ct Us ts"
      by simp_all
    from "3.IH"(1) ft obtain s1 n where r1: "run_parse_procs ct s st (matches_of t) = Inr (s1, st @ [n])"
      and c: "rtype n = tree_class t" and sh1: "shape_of n = tree_shape ct t"
      by blast
    from "3.IH"(2) fts obtain s2 ns
      where r2: "run_parse_procs ct s1 (st @ [n]) (matches_of_list ts) = Inr (s2, (st @ [n]) @ ns)"
      and all: "list_all2 (\<lambda>U n. is_a ct (rtype n) U) Us ns"
      and sh2: "map2 (\<lambda>U n. (U, Some (shape_of n))) Us ns = fields_shape ct Us ts"
      by blast
    have "run_parse_procs ct s st (matches_of_list (t # ts)) = Inr (s2, st @ (n # ns))"
      using r1 r2 by (simp add: run_parse_procs_append)
    moreover have "list_all2 (\<lambda>U n. is_a ct (rtype n) U) (U # Us) (n # ns)"
      using all isa c by simp
    moreover have "map2 (\<lambda>U n. (U, Some (shape_of n))) (U # Us) (n # ns)
        = fields_shape ct (U # Us) (t # ts)"
      using sh1 sh2 by simp
    ultimately show "\<exists>s' ns. run_parse_procs ct s st (matches_of_list (t # ts)) = Inr (s', st @ ns) \<and>
        list_all2 (\<lambda>U n. is_a ct (rtype n) U) (U # Us) ns \<and>
        map2 (\<lambda>U n. (U, Some (shape_of n))) (U # Us) ns = fields_shape ct (U # Us) (t # ts)"
      by blast
  qed
qed simp_all

text \<open>
  Claim C8, as amended. When the root rule has not matched, \<open>parse\<close> gives no node, with
  the errors the engine recorded. When it has matched and the parse procedures have left
  exactly one node on the stack, \<open>parse\<close> gives this node; they leave exactly one
  node when the matches of the rules with an action form one tree that fits the
  classes, and the node then has the shape of that tree. When the root rule has matched
  and the stack holds another number of nodes, the driver stops on its assertion and
  gives no node.
\<close>

theorem parse_root_or_errors:
  assumes "engine i g ws el = (matched, ms, el')"
  shows "(\<not> matched \<longrightarrow> parse ct engine s i g ws el = Inr (s, None, el'))
       \<and> (\<forall>s' n. matched \<and> run_parse_procs ct s [] ms = Inr (s', [n]) \<longrightarrow>
             parse ct engine s i g ws el = Inr (s', Some n, el'))
       \<and> (\<forall>s' st. matched \<and> run_parse_procs ct s [] ms = Inr (s', st) \<and> length st \<noteq> 1 \<longrightarrow>
             parse ct engine s i g ws el = Inl assert_failed)
       \<and> (\<forall>t. matched \<and> ms = matches_of t \<and> fits ct t \<longrightarrow>
             (\<exists>s' n. run_parse_procs ct s [] ms = Inr (s', [n]) \<and>
                parse ct engine s i g ws el = Inr (s', Some n, el') \<and>
                rtype n = tree_class t \<and> shape_of n = tree_shape ct t))
       \<and> (\<forall>s' n el''. parse ct engine s i g ws el = Inr (s', Some n, el'') \<longrightarrow>
             matched \<and> el'' = el' \<and> run_parse_procs ct s [] ms = Inr (s', [n]))
       \<and> (\<forall>s' el''. parse ct engine s i g ws el = Inr (s', None, el'') \<longrightarrow>
             \<not> matched \<and> s' = s \<and> el'' = el')"
proof -
  have c1: "\<not> matched \<longrightarrow> parse ct engine s i g ws el = Inr (s, None, el')"
    using assms by (simp add: parse_def)
  have c2: "\<forall>s' n. matched \<and> run_parse_procs ct s [] ms = Inr (s', [n]) \<longrightarrow>
      parse ct engine s i g ws el = Inr (s', Some n, el')"
    using assms by (simp add: parse_def)
  have c3: "\<forall>s' st. matched \<and> run_parse_procs ct s [] ms = Inr (s', st) \<and> length st \<noteq> 1 \<longrightarrow>
      parse ct engine s i g ws el = Inl assert_failed"
    using assms by (simp add: parse_def)
  have c4: "\<forall>t. matched \<and> ms = matches_of t \<and> fits ct t \<longrightarrow>
      (\<exists>s' n. run_parse_procs ct s [] ms = Inr (s', [n]) \<and>
         parse ct engine s i g ws el = Inr (s', Some n, el') \<and>
         rtype n = tree_class t \<and> shape_of n = tree_shape ct t)"
  proof (intro allI impI)
    fix t
    assume h: "matched \<and> ms = matches_of t \<and> fits ct t"
    with run_parse_procs_tree(1) [of ct t]
    obtain s' n where r: "run_parse_procs ct s [] (matches_of t) = Inr (s', [] @ [n])"
      and c: "rtype n = tree_class t" and sh: "shape_of n = tree_shape ct t"
      by blast
    have "parse ct engine s i g ws el = Inr (s', Some n, el')"
      using assms h r by (simp add: parse_def)
    then show "\<exists>s' n. run_parse_procs ct s [] ms = Inr (s', [n]) \<and>
        parse ct engine s i g ws el = Inr (s', Some n, el') \<and>
        rtype n = tree_class t \<and> shape_of n = tree_shape ct t"
      using h r c sh by auto
  qed
  have c5: "\<forall>s' n el''. parse ct engine s i g ws el = Inr (s', Some n, el'') \<longrightarrow>
      matched \<and> el'' = el' \<and> run_parse_procs ct s [] ms = Inr (s', [n])"
  proof (intro allI impI)
    fix s' n el''
    assume p: "parse ct engine s i g ws el = Inr (s', Some n, el'')"
    have m: "matched"
      using p assms by (auto simp add: parse_def split: if_splits)
    obtain s1 st where r: "run_parse_procs ct s [] ms = Inr (s1, st)" and l: "length st = 1"
      and e: "s' = s1" "n = st ! 0" "el'' = el'"
      using p assms m by (auto simp add: parse_def split: sum.splits if_splits)
    have "st = [st ! 0]"
      using l by (cases st) simp_all
    then have "run_parse_procs ct s [] ms = Inr (s', [n])"
      using r e by simp
    then show "matched \<and> el'' = el' \<and> run_parse_procs ct s [] ms = Inr (s', [n])"
      using m e by simp
  qed
  have c6: "\<forall>s' el''. parse ct engine s i g ws el = Inr (s', None, el'') \<longrightarrow>
      \<not> matched \<and> s' = s \<and> el'' = el'"
    using assms by (auto simp add: parse_def split: sum.splits if_splits)
  show ?thesis
    by (intro conjI c1 c2 c3 c4 c5 c6)
qed

theorem parse_root_or_errors_witness:
  "example_engine ''abb'' 0 0 []
     = (True, matches_of (PT 3 0 3 [PT 0 0 1 [], PT 1 1 2 [], PT 1 2 3 []]), []) \<and>
   fits example_ct (PT 3 0 3 [PT 0 0 1 [], PT 1 1 2 [], PT 1 2 3 []]) \<and>
   run_parse_procs example_ct example_state []
       (matches_of (PT 3 0 3 [PT 0 0 1 [], PT 1 1 2 [], PT 1 2 3 []]))
     = Inr (\<lparr>live = {10, 11, 12, 13, 14, 15, 16}, next_addr = 17, registry = [16, 15, 14, 13],
              members = no_members(13 := [], 14 := [], 15 := [],
                                   16 := [(16, 0), (16, 1), (16, 2)])\<rparr>,
            [Node 16 3 [ast_ptr 0 (Some (Node 13 0 [])), ast_ptr 1 (Some (Node 14 1 [])),
                        ast_ptr 1 (Some (Node 15 1 []))]]) \<and>
   parse example_ct example_engine example_state ''abb'' 0 0 []
     = Inr (\<lparr>live = {10, 11, 12, 13, 14, 15, 16}, next_addr = 17, registry = [16, 15, 14, 13],
              members = no_members(13 := [], 14 := [], 15 := [],
                                   16 := [(16, 0), (16, 1), (16, 2)])\<rparr>,
            Some (Node 16 3 [ast_ptr 0 (Some (Node 13 0 [])), ast_ptr 1 (Some (Node 14 1 [])),
                             ast_ptr 1 (Some (Node 15 1 []))]),
            []) \<and>
   example_engine ''b'' 0 0 [] = (False, [], [''syntax error'']) \<and>
   parse example_ct example_engine example_state ''b'' 0 0 []
     = Inr (example_state, None, [''syntax error''])"
proof -
  let ?t = "PT 3 0 3 [PT 0 0 1 [], PT 1 1 2 [], PT 1 2 3 []]"
  let ?s1 = "\<lparr>live = {10, 11, 12, 13}, next_addr = 14, registry = [13],
              members = no_members(13 := [])\<rparr>"
  let ?s2 = "\<lparr>live = {10, 11, 12, 13, 14}, next_addr = 15, registry = [14, 13],
              members = no_members(13 := [], 14 := [])\<rparr>"
  let ?s3 = "\<lparr>live = {10, 11, 12, 13, 14, 15}, next_addr = 16, registry = [15, 14, 13],
              members = no_members(13 := [], 14 := [], 15 := [])\<rparr>"
  let ?s4 = "\<lparr>live = {10, 11, 12, 13, 14, 15, 16}, next_addr = 17, registry = [16, 15, 14, 13],
              members = no_members(13 := [], 14 := [], 15 := [],
                                   16 := [(16, 0), (16, 1), (16, 2)])\<rparr>"
  let ?n = "Node 16 3 [ast_ptr 0 (Some (Node 13 0 [])), ast_ptr 1 (Some (Node 14 1 [])),
                        ast_ptr 1 (Some (Node 15 1 []))]"
  have d: "decl example_ct 0 = []" "decl example_ct 1 = []" "decl example_ct (Suc 0) = []"
    "decl example_ct 3 = [0, 1, 1]"
    by (simp_all add: example_ct_def example_decl_def)
  have u: "[0..<3] = [0, 1, 2]"
    by (simp add: upt_rec numeral_3_eq_3 numeral_2_eq_2)
  have e1: "example_engine ''abb'' 0 0 [] = (True, matches_of ?t, [])"
    by (simp add: example_engine_def)
  have e2: "example_engine ''b'' 0 0 [] = (False, [], [''syntax error''])"
    by (simp add: example_engine_def)
  have f: "fits example_ct ?t"
    by (simp add: d is_a_def)
  have p1: "parse_proc example_ct 0 0 1 example_state [] = Inr (?s1, [Node 13 0 []])"
    using parse_proc_eq [of example_ct 0 "[]" 0 1 example_state "[]"]
    by (auto simp add: d example_state_def)
  have p2: "parse_proc example_ct 1 1 2 ?s1 [Node 13 0 []]
      = Inr (?s2, [Node 13 0 [], Node 14 1 []])"
    using parse_proc_eq [of example_ct 1 "[]" 1 2 ?s1 "[Node 13 0 []]"]
    by (auto simp add: d)
  have p3: "parse_proc example_ct 1 2 3 ?s2 [Node 13 0 [], Node 14 1 []]
      = Inr (?s3, [Node 13 0 [], Node 14 1 [], Node 15 1 []])"
    using parse_proc_eq [of example_ct 1 "[]" 2 3 ?s2 "[Node 13 0 [], Node 14 1 []]"]
    by (auto simp add: d)
  have p4: "parse_proc example_ct 3 0 3 ?s3 [Node 13 0 [], Node 14 1 [], Node 15 1 []]
      = Inr (?s4, [?n])"
    using parse_proc_eq [of example_ct 3 "[Node 13 0 [], Node 14 1 [], Node 15 1 []]" 0 3 ?s3 "[]"]
    by (auto simp add: d u is_a_def numeral_2_eq_2)
  have r: "run_parse_procs example_ct example_state [] (matches_of ?t) = Inr (?s4, [?n])"
    by (simp only: matches_of.simps matches_of_list.simps append_Nil append_Cons
        run_parse_procs.simps p1 p2 p3 p4 sum.case prod.case)
  note t = parse_root_or_errors [where engine = example_engine and i = "''abb''"
      and g = "0 :: nat" and ws = "0 :: nat" and el = "[]" and ct = example_ct
      and s = example_state, OF e1]
  note t' = parse_root_or_errors [where engine = example_engine and i = "''b''"
      and g = "0 :: nat" and ws = "0 :: nat" and el = "[]" and ct = example_ct
      and s = example_state, OF e2]
  have ex: "\<exists>s' n. run_parse_procs example_ct example_state [] (matches_of ?t) = Inr (s', [n]) \<and>
      parse example_ct example_engine example_state ''abb'' 0 0 [] = Inr (s', Some n, []) \<and>
      rtype n = tree_class ?t \<and> shape_of n = tree_shape example_ct ?t"
    using t [THEN conjunct2, THEN conjunct2, THEN conjunct2, THEN conjunct1] f by blast
  have a: "parse example_ct example_engine example_state ''abb'' 0 0 [] = Inr (?s4, Some ?n, [])"
    using ex unfolding r by auto
  have b: "parse example_ct example_engine example_state ''b'' 0 0 []
      = Inr (example_state, None, [''syntax error''])"
    using t' [THEN conjunct1] by simp
  show ?thesis
    using e1 e2 f r a b by blast
qed

text \<open>
  Claim C8 as the specification states it fails where the root rule has matched and some
  rule below has no action: on the input \<open>aa\<close> the root rule matches, the parse
  procedures of the two leaves leave two nodes on the stack, and the driver stops on its
  assertion instead of returning a node.
\<close>

theorem parse_unwired_root_counterexample:
  "example_engine ''aa'' 0 0 [] = (True, [(0, 0, 1), (0, 1, 2)], []) \<and>
   run_parse_procs example_ct example_state [] [(0, 0, 1), (0, 1, 2)]
     = Inr (\<lparr>live = {10, 11, 12, 13, 14}, next_addr = 15, registry = [14, 13],
              members = no_members(13 := [], 14 := [])\<rparr>,
            [Node 13 0 [], Node 14 0 []]) \<and>
   parse example_ct example_engine example_state ''aa'' 0 0 [] = Inl assert_failed \<and>
   \<not> (\<exists>s' n el'. parse example_ct example_engine example_state ''aa'' 0 0 []
                     = Inr (s', Some n, el'))"
proof -
  let ?s1 = "\<lparr>live = {10, 11, 12, 13}, next_addr = 14, registry = [13],
              members = no_members(13 := [])\<rparr>"
  let ?s2 = "\<lparr>live = {10, 11, 12, 13, 14}, next_addr = 15, registry = [14, 13],
              members = no_members(13 := [], 14 := [])\<rparr>"
  have d: "decl example_ct 0 = []"
    by (simp add: example_ct_def example_decl_def)
  have e: "example_engine ''aa'' 0 0 [] = (True, [(0, 0, 1), (0, 1, 2)], [])"
    by (simp add: example_engine_def)
  have p1: "parse_proc example_ct 0 0 1 example_state [] = Inr (?s1, [Node 13 0 []])"
    using parse_proc_eq [of example_ct 0 "[]" 0 1 example_state "[]"]
    by (auto simp add: d example_state_def)
  have p2: "parse_proc example_ct 0 1 2 ?s1 [Node 13 0 []]
      = Inr (?s2, [Node 13 0 [], Node 14 0 []])"
    using parse_proc_eq [of example_ct 0 "[]" 1 2 ?s1 "[Node 13 0 []]"]
    by (auto simp add: d)
  have r: "run_parse_procs example_ct example_state [] [(0, 0, 1), (0, 1, 2)]
      = Inr (?s2, [Node 13 0 [], Node 14 0 []])"
    by (simp only: run_parse_procs.simps p1 p2 sum.case prod.case)
  have a: "parse example_ct example_engine example_state ''aa'' 0 0 [] = Inl assert_failed"
    by (simp only: parse_def e prod.case not_True_eq_False if_False r sum.case, simp)
  show ?thesis
    using e r a by simp
qed

end
